theory Spec2Isabelle
  imports Main "HOL-Library.Word"
begin

unbundle bit_operations_syntax

section \<open>Shared playback state (MaxProcessing, file_utils, current_settings)\<close>

text \<open>
  The two encoders of \<^verbatim>\<open>mzf.cpp\<close> and \<^verbatim>\<open>caq.cpp\<close> are tick-driven state machines
  over file-scope variables. The variables they share with the rest of the firmware are
  kept in one record, extended once per encoder with that encoder's own statics.
  Arduino's \<^verbatim>\<open>byte\<close> is an 8-bit word and \<^verbatim>\<open>word\<close> a 16-bit word. The shared
  variables are declared outside the sources at hand: \<^verbatim>\<open>currentPeriod\<close> and \<^verbatim>\<open>BAUDRATE\<close>
  are taken as \<^verbatim>\<open>word\<close>, \<^verbatim>\<open>bytesRead\<close> as a 32-bit \<^verbatim>\<open>unsigned long\<close>, \<^verbatim>\<open>count_r\<close> and
  \<^verbatim>\<open>outByte\<close> as \<^verbatim>\<open>byte\<close>.
\<close>

type_synonym byte = "8 word"
type_synonym uint8_t = "8 word"
type_synonym int8_t = "8 word"
type_synonym uint16_t = "16 word"
type_synonym uint32_t = "32 word"

text \<open>
  \<^verbatim>\<open>BLOCKID\<close> and \<^verbatim>\<open>TASK\<close> are declared in headers outside the sources at hand; only
  the members the encoders name are listed, every other member is \<open>OtherID\<close> or
  \<open>OtherTask\<close>.
\<close>

datatype BLOCKID = MZF | CAQ | IDEOF | OtherID nat

datatype TASK = PROCESSID | OtherTask nat

text \<open>
  Modelled from the spec: the storage object \<^verbatim>\<open>entry\<close> (an already-open tape image with
  a random-access seek and a block read) is an external collaborator. The image is its
  byte contents together with two flags for the ways the device can refuse: a seek that
  fails and a read that reports an error.
\<close>

record sd_file =
  contents :: "byte list"
  seek_fails :: bool
  read_fails :: bool

record globals =
  currentPeriod :: uint16_t
  currentID :: BLOCKID
  currentTask :: TASK
  count_r :: byte
  bytesRead :: uint32_t
  outByte :: byte
  BAUDRATE :: uint16_t
  entry :: sd_file

text \<open>
  Modelled from the spec: \<^verbatim>\<open>entry.seekSet(pos)\<close> succeeds unless the device refuses or
  the position lies beyond the end of the image.
\<close>

definition seekSet :: "sd_file \<Rightarrow> nat \<Rightarrow> bool" where
  "seekSet f pos = (\<not> seek_fails f \<and> pos \<le> length (contents f))"

text \<open>
  Modelled from the spec: \<^verbatim>\<open>entry.read(buf, n)\<close>, called right after \<^verbatim>\<open>seekSet(0)\<close>,
  copies the first \<open>n\<close> bytes of the image into the buffer and returns how many it
  copied (fewer than \<open>n\<close> on a short image), or \<open>-1\<close> on a device error.
\<close>

definition read_block :: "sd_file \<Rightarrow> byte list \<Rightarrow> nat \<Rightarrow> int \<times> byte list" where
  "read_block f buf n =
     (if read_fails f then (-1, buf)
      else let chunk = take n (contents f)
           in (int (length chunk), chunk @ drop (length chunk) buf))"

text \<open>
  Modelled from the spec: \<^verbatim>\<open>ReadByte()\<close> of file_utils, the sequential "read next byte"
  operation. It reads the byte at offset \<^verbatim>\<open>bytesRead\<close>; on success it stores it in
  \<^verbatim>\<open>outByte\<close>, advances \<^verbatim>\<open>bytesRead\<close> by one and returns true; when the image is
  exhausted or the device reports an error it returns false and changes nothing.
\<close>

definition ReadByte :: "'a globals_scheme \<Rightarrow> bool \<times> 'a globals_scheme" where
  "ReadByte g =
     (if \<not> read_fails (entry g) \<and> unat (bytesRead g) < length (contents (entry g))
      then (True, g\<lparr>outByte := contents (entry g) ! unat (bytesRead g),
                     bytesRead := bytesRead g + 1\<rparr>)
      else (False, g))"

section \<open>The Sharp MZ encoder (mzf.cpp)\<close>

definition MZF_LONG_UP_US :: uint16_t where "MZF_LONG_UP_US = 464"
definition MZF_LONG_DOWN_US :: uint16_t where "MZF_LONG_DOWN_US = 494"
definition MZF_SHORT_UP_US :: uint16_t where "MZF_SHORT_UP_US = 240"
definition MZF_SHORT_DOWN_US :: uint16_t where "MZF_SHORT_DOWN_US = 264"

definition MZF_LGAP_PULSES :: uint16_t where "MZF_LGAP_PULSES = 22000"
definition MZF_SGAP_PULSES :: uint16_t where "MZF_SGAP_PULSES = 11000"

definition MZF_LTM_LONGS :: uint8_t where "MZF_LTM_LONGS = 40"
definition MZF_LTM_SHORTS :: uint8_t where "MZF_LTM_SHORTS = 40"
definition MZF_STM_LONGS :: uint8_t where "MZF_STM_LONGS = 20"
definition MZF_STM_SHORTS :: uint8_t where "MZF_STM_SHORTS = 20"

datatype MZF_STAGE =
  LGAP1 | LTM_LONG | LTM_SHORT | LTM_ENDLONG
  | HDR1 | CHKH1 | HDR2 | CHKH2
  | SGAP | STM_LONG | STM_SHORT | STM_ENDLONG
  | FILE1 | CHKF1 | FILE2 | CHKF2
  | DONE

datatype BYTE_SRC = HDR | FILE | CHK

record mzf_state = globals +
  mzf_stage :: MZF_STAGE
  mzf_hdr :: "byte list"
  mzf_file_len :: uint16_t
  mzf_hdr_cksum :: uint16_t
  mzf_file_cksum :: uint16_t
  mzf_pulses_left :: uint32_t
  mzf_file_left :: uint16_t
  mzf_tm_left :: uint8_t
  mzf_src :: BYTE_SRC
  mzf_hdr_idx :: uint16_t
  mzf_cur_byte :: byte
  mzf_have_byte :: bool
  mzf_leader_done :: bool
  mzf_bit_mask :: uint8_t
  mzf_chk_byte_idx :: uint8_t
  mzf_half :: uint8_t

definition popcount8 :: "byte \<Rightarrow> uint8_t" where
  "popcount8 v0 =
     (let v1 = v0 - (drop_bit 1 v0 AND 0x55);
          v2 = (v1 AND 0x33) + (drop_bit 2 v1 AND 0x33)
      in (((v2 + drop_bit 4 v2) AND 0x0F) * 0x01) AND 0x1F)"

definition mzf_cksum_add :: "uint16_t \<Rightarrow> byte \<Rightarrow> uint16_t" where
  "mzf_cksum_add acc v = acc + ucast (popcount8 v)"

text \<open>
  One half-period of a pulse: the up half when \<open>mzf_half = 0\<close>, the down half otherwise.
  The boolean is the C function's return value, true when the whole pulse is out.
\<close>

definition mzf_emit_pulse :: "bool \<Rightarrow> mzf_state \<Rightarrow> bool \<times> mzf_state" where
  "mzf_emit_pulse isLong s =
     (if mzf_half s = 0
      then (False, s\<lparr>currentPeriod := (if isLong then MZF_LONG_UP_US else MZF_SHORT_UP_US),
                      mzf_half := 1\<rparr>)
      else (True, s\<lparr>currentPeriod := (if isLong then MZF_LONG_DOWN_US else MZF_SHORT_DOWN_US),
                     mzf_half := 0\<rparr>))"

definition mzf_next_stage :: "MZF_STAGE \<Rightarrow> mzf_state \<Rightarrow> mzf_state" where
  "mzf_next_stage st s =
     s\<lparr>mzf_stage := st, mzf_half := 0, mzf_have_byte := False, mzf_leader_done := False,
       mzf_bit_mask := 0x80, mzf_chk_byte_idx := 0\<rparr>"

text \<open>
  The checksum loop of \<^verbatim>\<open>mzf_init\<close>:
  \<^verbatim>\<open>for (uint16_t i = 0; i < 128; ++i) cksum = mzf_cksum_add(cksum, mzf_hdr[i]);\<close>
\<close>

function hdr_cksum_loop :: "byte list \<Rightarrow> uint16_t \<Rightarrow> uint16_t \<Rightarrow> uint16_t" where
  "hdr_cksum_loop hdr i acc =
     (if i < 128 then hdr_cksum_loop hdr (i + 1) (mzf_cksum_add acc (hdr ! unat i)) else acc)"
  by pat_completeness auto
termination
proof (relation "measure (\<lambda>(hdr, i, acc). 128 - unat i)")
  show "wf (measure (\<lambda>(hdr, i, acc). 128 - unat i))" by simp
next
  fix hdr :: "byte list" and i acc :: uint16_t
  assume lt: "i < 128"
  then have "unat i < 128" by (simp add: word_less_nat_alt)
  then have "unat (i + 1) = unat i + 1" by (simp add: unat_word_ariths)
  with \<open>unat i < 128\<close>
  show "((hdr, i + 1, mzf_cksum_add acc (hdr ! unat i)), (hdr, i, acc))
          \<in> measure (\<lambda>(hdr, i, acc). 128 - unat i)"
    by simp
qed

declare hdr_cksum_loop.simps [simp del]

definition mzf_init :: "mzf_state \<Rightarrow> mzf_state" where
  "mzf_init s0 =
     (let s1 = s0\<lparr>mzf_stage := MZF_STAGE.DONE, mzf_half := 0\<rparr> in
      if \<not> seekSet (entry s1) 0 then s1\<lparr>currentID := IDEOF\<rparr>
      else
        let (r, buf) = read_block (entry s1) (mzf_hdr s1) 128;
            s2 = s1\<lparr>mzf_hdr := buf\<rparr>
        in if r \<noteq> 128 then s2\<lparr>currentID := IDEOF\<rparr>
           else
             let s3 = s2\<lparr>mzf_file_len :=
                            ucast (mzf_hdr s2 ! 18) OR push_bit 8 (ucast (mzf_hdr s2 ! 19))\<rparr>;
                 s4 = s3\<lparr>mzf_hdr_cksum := hdr_cksum_loop (mzf_hdr s3) 0 0\<rparr>;
                 s5 = s4\<lparr>bytesRead := 128\<rparr>;
                 s6 = s5\<lparr>currentTask := PROCESSID, currentID := MZF\<rparr>;
                 s7 = s6\<lparr>mzf_pulses_left := ucast MZF_LGAP_PULSES\<rparr>
             in mzf_next_stage LGAP1 s7)"

definition mzf_load_next_byte :: "mzf_state \<Rightarrow> bool \<times> mzf_state" where
  "mzf_load_next_byte s =
     (if mzf_src s = HDR then
        (if mzf_hdr_idx s \<ge> 128 then (False, s)
         else (True, s\<lparr>mzf_cur_byte := mzf_hdr s ! unat (mzf_hdr_idx s),
                        mzf_hdr_idx := mzf_hdr_idx s + 1,
                        mzf_have_byte := True\<rparr>))
      else if mzf_src s = FILE then
        (if mzf_file_left s = 0 then (False, s)
         else case ReadByte s of
           (False, s1) \<Rightarrow> (False, s1)
         | (True, s1) \<Rightarrow>
             (let s2 = s1\<lparr>mzf_cur_byte := outByte s1, mzf_have_byte := True,
                          mzf_file_left := mzf_file_left s1 - 1\<rparr>
              in (True, s2\<lparr>mzf_file_cksum :=
                              mzf_cksum_add (mzf_file_cksum s2) (mzf_cur_byte s2)\<rparr>)))
      else
        (if mzf_chk_byte_idx s \<ge> 2 then (False, s)
         else
           let v = (if mzf_stage s = CHKH1 \<or> mzf_stage s = CHKH2
                    then mzf_hdr_cksum s else mzf_file_cksum s);
               b = (if mzf_chk_byte_idx s = 0 then (ucast (drop_bit 8 v) :: byte)
                    else ucast (v AND 0xFF))
           in (True, s\<lparr>mzf_cur_byte := b, mzf_have_byte := True,
                        mzf_chk_byte_idx := mzf_chk_byte_idx s + 1\<rparr>)))"

definition mzf_reset_byte_writer_for_src :: "BYTE_SRC \<Rightarrow> mzf_state \<Rightarrow> mzf_state" where
  "mzf_reset_byte_writer_for_src src s =
     s\<lparr>mzf_src := src, mzf_have_byte := False, mzf_leader_done := False,
       mzf_bit_mask := 0x80, mzf_chk_byte_idx := 0\<rparr>"

text \<open>
  The second phase of \<^verbatim>\<open>mzf_process_bytes\<close>, once a byte is loaded: the leader pulse,
  then the data pulse of the bit under the mask.
\<close>

definition mzf_emit_byte_half :: "mzf_state \<Rightarrow> mzf_state" where
  "mzf_emit_byte_half s =
     (if \<not> mzf_leader_done s then
        (case mzf_emit_pulse True s of
           (True, s1) \<Rightarrow> s1\<lparr>mzf_leader_done := True\<rparr>
         | (False, s1) \<Rightarrow> s1)
      else
        let bitIsOne = (mzf_cur_byte s AND mzf_bit_mask s \<noteq> 0) in
        case mzf_emit_pulse bitIsOne s of
          (True, s1) \<Rightarrow>
            (let s2 = s1\<lparr>mzf_bit_mask := drop_bit 1 (mzf_bit_mask s1)\<rparr>
             in if mzf_bit_mask s2 = 0 then s2\<lparr>mzf_have_byte := False\<rparr> else s2)
        | (False, s1) \<Rightarrow> s1)"

definition mzf_process_bytes :: "uint16_t \<Rightarrow> mzf_state \<Rightarrow> mzf_state" where
  "mzf_process_bytes totalBytesForHDR s =
     (if \<not> mzf_have_byte s then
        (case mzf_load_next_byte s of
           (False, s1) \<Rightarrow> s1\<lparr>currentPeriod := 0\<rparr>
         | (True, s1) \<Rightarrow>
             mzf_emit_byte_half (s1\<lparr>mzf_leader_done := False, mzf_bit_mask := 0x80\<rparr>))
      else mzf_emit_byte_half s)"

text \<open>
  \<^verbatim>\<open>mzf_process\<close>, one case per stage as in the switch. \<^verbatim>\<open>--x == 0\<close> decrements and
  then tests; the \<^verbatim>\<open>DONE\<close> case is also the \<^verbatim>\<open>default\<close>.
\<close>

definition mzf_process :: "mzf_state \<Rightarrow> mzf_state" where
  "mzf_process s =
     (case mzf_stage s of
        LGAP1 \<Rightarrow>
          (case mzf_emit_pulse False s of
             (True, s1) \<Rightarrow>
               (let s2 = s1\<lparr>mzf_pulses_left := mzf_pulses_left s1 - 1\<rparr>
                in if mzf_pulses_left s2 = 0
                   then mzf_next_stage LTM_LONG (s2\<lparr>mzf_tm_left := MZF_LTM_LONGS\<rparr>)
                   else s2)
           | (False, s1) \<Rightarrow> s1)
      | LTM_LONG \<Rightarrow>
          (case mzf_emit_pulse True s of
             (True, s1) \<Rightarrow>
               (let s2 = s1\<lparr>mzf_tm_left := mzf_tm_left s1 - 1\<rparr>
                in if mzf_tm_left s2 = 0
                   then mzf_next_stage LTM_SHORT (s2\<lparr>mzf_tm_left := MZF_LTM_SHORTS\<rparr>)
                   else s2)
           | (False, s1) \<Rightarrow> s1)
      | LTM_SHORT \<Rightarrow>
          (case mzf_emit_pulse False s of
             (True, s1) \<Rightarrow>
               (let s2 = s1\<lparr>mzf_tm_left := mzf_tm_left s1 - 1\<rparr>
                in if mzf_tm_left s2 = 0
                   then mzf_next_stage LTM_ENDLONG s2
                   else s2)
           | (False, s1) \<Rightarrow> s1)
      | LTM_ENDLONG \<Rightarrow>
          (case mzf_emit_pulse True s of
             (True, s1) \<Rightarrow>
               mzf_next_stage HDR1
                 (mzf_reset_byte_writer_for_src HDR (s1\<lparr>mzf_hdr_idx := 0\<rparr>))
           | (False, s1) \<Rightarrow> s1)
      | HDR1 \<Rightarrow>
          (let s1 = mzf_process_bytes 128 s
           in if currentPeriod s1 = 0
              then mzf_next_stage CHKH1 (mzf_reset_byte_writer_for_src CHK s1)
              else s1)
      | CHKH1 \<Rightarrow>
          (let s1 = mzf_process_bytes 2 s
           in if currentPeriod s1 = 0
              then mzf_next_stage HDR2
                     (mzf_reset_byte_writer_for_src HDR (s1\<lparr>mzf_hdr_idx := 0\<rparr>))
              else s1)
      | HDR2 \<Rightarrow>
          (let s1 = mzf_process_bytes 128 s
           in if currentPeriod s1 = 0
              then mzf_next_stage CHKH2 (mzf_reset_byte_writer_for_src CHK s1)
              else s1)
      | CHKH2 \<Rightarrow>
          (let s1 = mzf_process_bytes 2 s
           in if currentPeriod s1 = 0
              then mzf_next_stage SGAP (s1\<lparr>mzf_pulses_left := ucast MZF_SGAP_PULSES\<rparr>)
              else s1)
      | SGAP \<Rightarrow>
          (case mzf_emit_pulse False s of
             (True, s1) \<Rightarrow>
               (let s2 = s1\<lparr>mzf_pulses_left := mzf_pulses_left s1 - 1\<rparr>
                in if mzf_pulses_left s2 = 0
                   then mzf_next_stage STM_LONG (s2\<lparr>mzf_tm_left := MZF_STM_LONGS\<rparr>)
                   else s2)
           | (False, s1) \<Rightarrow> s1)
      | STM_LONG \<Rightarrow>
          (case mzf_emit_pulse True s of
             (True, s1) \<Rightarrow>
               (let s2 = s1\<lparr>mzf_tm_left := mzf_tm_left s1 - 1\<rparr>
                in if mzf_tm_left s2 = 0
                   then mzf_next_stage STM_SHORT (s2\<lparr>mzf_tm_left := MZF_STM_SHORTS\<rparr>)
                   else s2)
           | (False, s1) \<Rightarrow> s1)
      | STM_SHORT \<Rightarrow>
          (case mzf_emit_pulse False s of
             (True, s1) \<Rightarrow>
               (let s2 = s1\<lparr>mzf_tm_left := mzf_tm_left s1 - 1\<rparr>
                in if mzf_tm_left s2 = 0
                   then mzf_next_stage STM_ENDLONG s2
                   else s2)
           | (False, s1) \<Rightarrow> s1)
      | STM_ENDLONG \<Rightarrow>
          (case mzf_emit_pulse True s of
             (True, s1) \<Rightarrow>
               mzf_next_stage FILE1
                 (mzf_reset_byte_writer_for_src FILE
                   (s1\<lparr>bytesRead := 128, mzf_file_left := mzf_file_len s1,
                       mzf_file_cksum := 0\<rparr>))
           | (False, s1) \<Rightarrow> s1)
      | FILE1 \<Rightarrow>
          (let s1 = mzf_process_bytes 0 s
           in if currentPeriod s1 = 0
              then mzf_next_stage CHKF1 (mzf_reset_byte_writer_for_src CHK s1)
              else s1)
      | CHKF1 \<Rightarrow>
          (let s1 = mzf_process_bytes 2 s
           in if currentPeriod s1 = 0
              then mzf_next_stage MZF_STAGE.DONE s1
              else s1)
      | FILE2 \<Rightarrow>
          (let s1 = mzf_process_bytes 0 s
           in if currentPeriod s1 = 0
              then mzf_next_stage CHKF2 (mzf_reset_byte_writer_for_src CHK s1)
              else s1)
      | CHKF2 \<Rightarrow>
          (let s1 = mzf_process_bytes 2 s
           in if currentPeriod s1 = 0
              then mzf_next_stage MZF_STAGE.DONE s1
              else s1)
      | MZF_STAGE.DONE \<Rightarrow>
          s\<lparr>currentID := IDEOF, currentTask := PROCESSID, count_r := 255,
            currentPeriod := 0\<rparr>)"

text \<open>
  The two shapes the cases of \<^verbatim>\<open>mzf_process\<close> have, named for the proofs: a pulse
  stage emits a half-period and runs its continuation when the pulse is complete; a
  byte stage runs \<^verbatim>\<open>mzf_process_bytes\<close> and runs its continuation when that produced
  the zero period. The two counters are decremented and tested the same way.
\<close>

definition mzf_pulse_stage ::
  "bool \<Rightarrow> (mzf_state \<Rightarrow> mzf_state) \<Rightarrow> mzf_state \<Rightarrow> mzf_state" where
  "mzf_pulse_stage isLong k s =
     (case mzf_emit_pulse isLong s of (True, s1) \<Rightarrow> k s1 | (False, s1) \<Rightarrow> s1)"

definition mzf_bytes_stage ::
  "uint16_t \<Rightarrow> (mzf_state \<Rightarrow> mzf_state) \<Rightarrow> mzf_state \<Rightarrow> mzf_state" where
  "mzf_bytes_stage n k s =
     (let s1 = mzf_process_bytes n s in if currentPeriod s1 = 0 then k s1 else s1)"

definition dec_pulses_left :: "(mzf_state \<Rightarrow> mzf_state) \<Rightarrow> mzf_state \<Rightarrow> mzf_state" where
  "dec_pulses_left k s =
     (let s1 = s\<lparr>mzf_pulses_left := mzf_pulses_left s - 1\<rparr>
      in if mzf_pulses_left s1 = 0 then k s1 else s1)"

definition dec_tm_left :: "(mzf_state \<Rightarrow> mzf_state) \<Rightarrow> mzf_state \<Rightarrow> mzf_state" where
  "dec_tm_left k s =
     (let s1 = s\<lparr>mzf_tm_left := mzf_tm_left s - 1\<rparr>
      in if mzf_tm_left s1 = 0 then k s1 else s1)"

section \<open>The Mattel Aquarius encoder (caq.cpp)\<close>

definition CAQ_MARK_HALF_US :: uint16_t where "CAQ_MARK_HALF_US = 272"
definition CAQ_SPACE_HALF_US :: uint16_t where "CAQ_SPACE_HALF_US = 544"

datatype CAQ_STAGE = START_BIT | DATA_BITS | STOP_BIT1 | STOP_BIT2 | DONE

text \<open>
  \<^verbatim>\<open>caq_bit_idx\<close> is an \<^verbatim>\<open>int8_t\<close>: an 8-bit word read as two's complement (\<open>sint\<close>).
\<close>

record caq_state = globals +
  caq_stage :: CAQ_STAGE
  caq_saved_baudrate :: uint16_t
  caq_baudrate_overridden :: bool
  caq_cur_byte :: byte
  caq_have_byte :: bool
  caq_bit_idx :: int8_t
  caq_halves_left :: uint8_t
  caq_half_period :: uint16_t

definition caq_begin_bit :: "bool \<Rightarrow> caq_state \<Rightarrow> caq_state" where
  "caq_begin_bit bit_val s =
     s\<lparr>caq_half_period := (if bit_val then CAQ_MARK_HALF_US else CAQ_SPACE_HALF_US),
       caq_halves_left := 4\<rparr>"

text \<open>
  \<^verbatim>\<open>caq_get_next_byte(byte &out)\<close>: the reference parameter is passed in and handed
  back; it is written only when \<^verbatim>\<open>ReadByte\<close> succeeded.
\<close>

definition caq_get_next_byte :: "byte \<Rightarrow> caq_state \<Rightarrow> bool \<times> byte \<times> caq_state" where
  "caq_get_next_byte out s =
     (case ReadByte s of
        (False, s1) \<Rightarrow> (False, out, s1)
      | (True, s1) \<Rightarrow> (True, outByte s1, s1))"

definition caq_init :: "caq_state \<Rightarrow> caq_state" where
  "caq_init s0 =
     (let s1 = s0\<lparr>caq_stage := START_BIT, caq_have_byte := False, caq_bit_idx := 7,
                  caq_halves_left := 0, caq_half_period := CAQ_SPACE_HALF_US\<rparr>;
          s2 = (if \<not> caq_baudrate_overridden s1
                then s1\<lparr>caq_saved_baudrate := BAUDRATE s1, BAUDRATE := 600,
                        caq_baudrate_overridden := True\<rparr>
                else s1)
      in s2\<lparr>currentID := CAQ, currentTask := PROCESSID, count_r := 255\<rparr>)"

text \<open>\<^verbatim>\<open>currentPeriod = caq_half_period; caq_halves_left--;\<close>\<close>

definition caq_emit_half :: "caq_state \<Rightarrow> caq_state" where
  "caq_emit_half s =
     s\<lparr>currentPeriod := caq_half_period s, caq_halves_left := caq_halves_left s - 1\<rparr>"

text \<open>
  In the \<^verbatim>\<open>DATA_BITS\<close> case the byte is shifted right by \<^verbatim>\<open>caq_bit_idx\<close>; C leaves a
  shift by a negative count undefined, here it is a shift by zero.
\<close>

definition caq_process :: "caq_state \<Rightarrow> caq_state" where
  "caq_process s0 =
     (let s = s0\<lparr>currentPeriod := 0\<rparr> in
      if caq_halves_left s \<noteq> 0 then caq_emit_half s
      else
        let s1 =
          (if \<not> caq_have_byte s then
             (case caq_get_next_byte (caq_cur_byte s) s of
                (False, out, t) \<Rightarrow> t\<lparr>caq_cur_byte := out, caq_stage := DONE\<rparr>
              | (True, out, t) \<Rightarrow>
                  t\<lparr>caq_cur_byte := out, caq_have_byte := True, caq_stage := START_BIT,
                    caq_bit_idx := 7\<rparr>)
           else s)
        in case caq_stage s1 of
             START_BIT \<Rightarrow> caq_emit_half ((caq_begin_bit False s1)\<lparr>caq_stage := DATA_BITS\<rparr>)
           | DATA_BITS \<Rightarrow>
               (let bit_val =
                      (drop_bit (nat (sint (caq_bit_idx s1))) (caq_cur_byte s1) AND 0x01 \<noteq> 0);
                    s2 = caq_begin_bit bit_val s1;
                    s3 = s2\<lparr>caq_bit_idx := caq_bit_idx s2 - 1\<rparr>;
                    s4 = (if caq_bit_idx s3 <s 0 then s3\<lparr>caq_stage := STOP_BIT1\<rparr> else s3)
                in caq_emit_half s4)
           | STOP_BIT1 \<Rightarrow> caq_emit_half ((caq_begin_bit True s1)\<lparr>caq_stage := STOP_BIT2\<rparr>)
           | STOP_BIT2 \<Rightarrow>
               caq_emit_half
                 ((caq_begin_bit True s1)\<lparr>caq_have_byte := False, caq_stage := START_BIT\<rparr>)
           | DONE \<Rightarrow>
               (let s2 = (if caq_baudrate_overridden s1
                          then s1\<lparr>BAUDRATE := caq_saved_baudrate s1,
                                  caq_baudrate_overridden := False\<rparr>
                          else s1)
                in s2\<lparr>currentID := IDEOF, currentTask := PROCESSID, count_r := 255,
                      currentPeriod := 0\<rparr>))"

section \<open>The tick driver\<close>

text \<open>
  The scheduler calls the active encoder's tick operation again and again.
  \<open>after f n s\<close> is the state after \<open>n\<close> calls of \<open>f\<close> from \<open>s\<close>;
  \<open>trace obs f n s\<close> lists, for each of these calls, what \<open>obs\<close> sees of the state
  before the call and the state after it.
\<close>

fun after :: "('s \<Rightarrow> 's) \<Rightarrow> nat \<Rightarrow> 's \<Rightarrow> 's" where
  "after f 0 s = s"
| "after f (Suc n) s = after f n (f s)"

fun trace :: "('s \<Rightarrow> 's \<Rightarrow> 'o) \<Rightarrow> ('s \<Rightarrow> 's) \<Rightarrow> nat \<Rightarrow> 's \<Rightarrow> 'o list" where
  "trace obs f 0 s = []"
| "trace obs f (Suc n) s = obs s (f s) # trace obs f n (f s)"

text \<open>The period a tick hands to the caller.\<close>

definition period :: "'a globals_scheme \<Rightarrow> 'a globals_scheme \<Rightarrow> uint16_t" where
  "period a b = currentPeriod b"

text \<open>The stage an MZF tick runs in, with the period it hands to the caller.\<close>

definition stage_period :: "mzf_state \<Rightarrow> mzf_state \<Rightarrow> MZF_STAGE \<times> uint16_t" where
  "stage_period a b = (mzf_stage a, currentPeriod b)"

text \<open>
  The variables as the C runtime initialises them at power-on, over whatever the rest of
  the firmware holds in the shared ones.
\<close>

definition mzf_power_on :: "globals \<Rightarrow> mzf_state" where
  "mzf_power_on g =
     globals.extend g
       \<lparr>mzf_stage = MZF_STAGE.DONE, mzf_hdr = replicate 128 0, mzf_file_len = 0,
        mzf_hdr_cksum = 0, mzf_file_cksum = 0, mzf_pulses_left = 0, mzf_file_left = 0,
        mzf_tm_left = 0, mzf_src = HDR, mzf_hdr_idx = 0, mzf_cur_byte = 0,
        mzf_have_byte = False, mzf_leader_done = False, mzf_bit_mask = 0x80,
        mzf_chk_byte_idx = 0, mzf_half = 0\<rparr>"

definition caq_power_on :: "globals \<Rightarrow> caq_state" where
  "caq_power_on g =
     globals.extend g
       \<lparr>caq_stage = DONE, caq_saved_baudrate = 0, caq_baudrate_overridden = False,
        caq_cur_byte = 0, caq_have_byte = False, caq_bit_idx = 7, caq_halves_left = 0,
        caq_half_period = 0\<rparr>"

text \<open>A tape image opened without device faults, the shared variables at rest.\<close>

definition tape :: "byte list \<Rightarrow> uint16_t \<Rightarrow> globals" where
  "tape bs baud =
     \<lparr>currentPeriod = 0, currentID = OtherID 0, currentTask = OtherTask 0, count_r = 0,
      bytesRead = 0, outByte = 0, BAUDRATE = baud,
      entry = \<lparr>contents = bs, seek_fails = False, read_fails = False\<rparr>\<rparr>"

text \<open>
  Two images to run the encoders on: a 128-byte header whose length field (offsets 18
  and 19, little-endian) says 3, followed by the three body bytes 00 FF 81; and the same
  header with only one body byte behind it.
\<close>

definition demo_image :: "byte list" where
  "demo_image = replicate 18 0 @ [3, 0] @ replicate 108 0 @ [0x00, 0xFF, 0x81]"

definition short_image :: "byte list" where
  "short_image = replicate 18 0 @ [3, 0] @ replicate 108 0 @ [0x55]"

text \<open>A scheduler's calls into the CAQ encoder, in order.\<close>

datatype caq_call = Init | Tick

fun caq_calls :: "caq_call list \<Rightarrow> caq_state \<Rightarrow> caq_state" where
  "caq_calls [] s = s"
| "caq_calls (Init # cs) s = caq_calls cs (caq_init s)"
| "caq_calls (Tick # cs) s = caq_calls cs (caq_process s)"

section \<open>What the specification says the waveforms are\<close>

text \<open>The number of 1-bits of a byte.\<close>

definition bits_set :: "byte \<Rightarrow> nat" where
  "bits_set v = length (filter (bit v) [0..<8])"

text \<open>
  An MZF pulse is an up half then a down half; a byte goes out as one long leader pulse
  and eight data pulses, most significant bit first, long for 1 and short for 0.
\<close>

definition pulse_halves :: "bool \<Rightarrow> uint16_t list" where
  "pulse_halves isLong = [if isLong then 464 else 240, if isLong then 494 else 264]"

definition byte_wave :: "byte \<Rightarrow> uint16_t list" where
  "byte_wave b =
     pulse_halves True @ concat (map (\<lambda>i. pulse_halves (bit b i)) [7, 6, 5, 4, 3, 2, 1, 0])"

text \<open>\<open>n\<close> pulses of one kind, each half tagged with the stage that emits it.\<close>

definition pulses :: "MZF_STAGE \<Rightarrow> bool \<Rightarrow> nat \<Rightarrow> (MZF_STAGE \<times> uint16_t) list" where
  "pulses st isLong n = concat (replicate n (map (Pair st) (pulse_halves isLong)))"

text \<open>The half-periods of a run of bytes, each tagged with the stage that emits it.\<close>

definition bytes_wave :: "MZF_STAGE \<Rightarrow> byte list \<Rightarrow> (MZF_STAGE \<times> uint16_t) list" where
  "bytes_wave st bs = concat (map (\<lambda>b. map (Pair st) (byte_wave b)) bs)"

text \<open>
  The whole tape the specification describes, tick by tick: long gap, leader tapemark,
  the header and its checksum twice, short gap, trailer tapemark, the file body and its
  checksum. A checksum goes out high byte first; every stage that sends bytes ends
  with one tick that hands out the zero period.
\<close>

definition cksum_bytes :: "uint16_t \<Rightarrow> byte list" where
  "cksum_bytes v = [ucast (drop_bit 8 v), ucast (v AND 0xFF)]"

definition mzf_tape_wave ::
  "byte list \<Rightarrow> uint16_t \<Rightarrow> byte list \<Rightarrow> uint16_t \<Rightarrow> (MZF_STAGE \<times> uint16_t) list" where
  "mzf_tape_wave hdr hck body fck =
     pulses LGAP1 False 22000 @ pulses LTM_LONG True 40 @ pulses LTM_SHORT False 40 @
     pulses LTM_ENDLONG True 1 @
     bytes_wave HDR1 hdr @ [(HDR1, 0)] @ bytes_wave CHKH1 (cksum_bytes hck) @ [(CHKH1, 0)] @
     bytes_wave HDR2 hdr @ [(HDR2, 0)] @ bytes_wave CHKH2 (cksum_bytes hck) @ [(CHKH2, 0)] @
     pulses SGAP False 11000 @ pulses STM_LONG True 20 @ pulses STM_SHORT False 20 @
     pulses STM_ENDLONG True 1 @
     bytes_wave FILE1 body @ [(FILE1, 0)] @ bytes_wave CHKF1 (cksum_bytes fck) @ [(CHKF1, 0)]"

text \<open>
  The receiver's side: half-periods are read two at a time as pulses (long is 1, short
  is 0, anything else is no pulse); a byte is a long leader pulse and eight data pulses,
  the first of them the most significant bit.
\<close>

fun pulse_kinds :: "uint16_t list \<Rightarrow> bool list option" where
  "pulse_kinds [] = Some []"
| "pulse_kinds [u] = None"
| "pulse_kinds (u # d # ps) =
     (if u = 464 \<and> d = 494 then map_option (Cons True) (pulse_kinds ps)
      else if u = 240 \<and> d = 264 then map_option (Cons False) (pulse_kinds ps)
      else None)"

definition bits_to_byte :: "bool list \<Rightarrow> byte" where
  "bits_to_byte bs = foldl (\<lambda>acc b. 2 * acc + (if b then 1 else 0)) 0 bs"

definition decode_byte :: "uint16_t list \<Rightarrow> byte option" where
  "decode_byte ps =
     (case pulse_kinds ps of
        Some (True # bs) \<Rightarrow> if length bs = 8 then Some (bits_to_byte bs) else None
      | _ \<Rightarrow> None)"

text \<open>
  A CAQ byte is framed as a start bit 0, the eight data bits from the most significant
  down, and two stop bits 1; every bit is four half-periods, mark-timed for 1 and
  space-timed for 0.
\<close>

definition caq_frame :: "byte \<Rightarrow> bool list" where
  "caq_frame b = False # map (bit b) [7, 6, 5, 4, 3, 2, 1, 0] @ [True, True]"

definition caq_wave :: "bool list \<Rightarrow> uint16_t list" where
  "caq_wave bs = concat (map (\<lambda>v. replicate 4 (if v then 272 else 544)) bs)"

text \<open>The MZF stages that send bytes.\<close>

fun is_bytes_stage :: "MZF_STAGE \<Rightarrow> bool" where
  "is_bytes_stage HDR1 = True"
| "is_bytes_stage CHKH1 = True"
| "is_bytes_stage HDR2 = True"
| "is_bytes_stage CHKH2 = True"
| "is_bytes_stage FILE1 = True"
| "is_bytes_stage CHKF1 = True"
| "is_bytes_stage FILE2 = True"
| "is_bytes_stage CHKF2 = True"
| "is_bytes_stage _ = False"

text \<open>
  What holds of the half flag between ticks: it is 0 or 1, and in a stage that sends
  bytes a pulse is half out only while a byte is loaded.
\<close>

definition half_ok :: "mzf_state \<Rightarrow> bool" where
  "half_ok s =
     ((mzf_half s = 0 \<or> mzf_half s = 1) \<and>
      (is_bytes_stage (mzf_stage s) \<and> mzf_half s \<noteq> 0 \<longrightarrow> mzf_have_byte s))"

text \<open>
  What one tick does to the half flag and the stage: a stage is left only on the down
  half of a pulse or on a zero period with no pulse half out, the new stage starts on
  an up half, and a tick from the up position emits an up half or the zero period.
\<close>

definition tick_ok :: "mzf_state \<Rightarrow> mzf_state \<Rightarrow> bool" where
  "tick_ok s s' =
     ((mzf_stage s' \<noteq> mzf_stage s \<longrightarrow>
         mzf_half s' = 0 \<and>
         (currentPeriod s' = 0 \<and> mzf_half s = 0 \<or>
          (currentPeriod s' = 494 \<or> currentPeriod s' = 264) \<and> mzf_half s = 1)) \<and>
      (mzf_half s = 0 \<longrightarrow>
         currentPeriod s' = 0 \<or> currentPeriod s' = 464 \<or> currentPeriod s' = 240))"

section \<open>Basic facts\<close>

lemma after_add: "after f (m + n) s = after f n (after f m s)"
  by (induction m arbitrary: s) simp_all

lemma trace_add: "trace obs f (m + n) s = trace obs f m s @ trace obs f n (after f m s)"
  by (induction m arbitrary: s) simp_all

lemma after_numeral: "after f (numeral k) s = after f (pred_numeral k) (f s)"
  by (simp add: numeral_eq_Suc)

lemma trace_numeral:
  "trace obs f (numeral k) s = obs s (f s) # trace obs f (pred_numeral k) (f s)"
  by (simp add: numeral_eq_Suc)

lemmas mzf_consts =
  MZF_LONG_UP_US_def MZF_LONG_DOWN_US_def MZF_SHORT_UP_US_def MZF_SHORT_DOWN_US_def

lemmas caq_consts = CAQ_MARK_HALF_US_def CAQ_SPACE_HALF_US_def

subsection \<open>Population count\<close>

lemma popcount8_table:
  "\<forall>n \<in> set [0..<256]. unat (popcount8 (of_nat n)) = bits_set (of_nat n)"
  by code_simp

lemma byte_cases:
  assumes "\<forall>n \<in> set [0..<256]. P (of_nat n :: byte)"
  shows "P v"
proof -
  have "unat v < 256" using unsigned_less [of v, where 'a = nat] by simp
  then have "unat v \<in> set [0..<256]" by simp
  with assms have "P (of_nat (unat v))" by blast
  then show ?thesis by simp
qed

lemma popcount8_bits_set: "unat (popcount8 v) = bits_set v"
  by (rule byte_cases [where P = "\<lambda>v. unat (popcount8 v) = bits_set v"]) (rule popcount8_table)

lemma bits_round_trip_table:
  "\<forall>n \<in> set [0..<256].
     bits_to_byte (map (bit (of_nat n :: byte)) [7, 6, 5, 4, 3, 2, 1, 0]) = of_nat n"
  by code_simp

lemma bits_round_trip: "bits_to_byte (map (bit b) [7, 6, 5, 4, 3, 2, 1, 0]) = b"
  by (rule byte_cases [where P = "\<lambda>b. bits_to_byte (map (bit b) [7, 6, 5, 4, 3, 2, 1, 0]) = b"])
     (rule bits_round_trip_table)

lemma cksum_add_unat: "mzf_cksum_add acc v = acc + of_nat (bits_set v)"
proof -
  have "(ucast (popcount8 v) :: uint16_t) = of_nat (unat (popcount8 v))" by simp
  then show ?thesis by (simp add: mzf_cksum_add_def popcount8_bits_set)
qed

lemma hdr_cksum_loop_sum:
  "unat i \<le> 128 \<Longrightarrow> 128 \<le> length hdr \<Longrightarrow>
   hdr_cksum_loop hdr i acc = acc + of_nat (sum_list (map bits_set (drop (unat i) (take 128 hdr))))"
proof (induction hdr i acc rule: hdr_cksum_loop.induct)
  case (1 hdr i acc)
  show ?case
  proof (cases "i < 128")
    case True
    then have lt: "unat i < 128" by (simp add: word_less_nat_alt)
    then have suc: "unat (i + 1) = Suc (unat i)" by (simp add: unat_word_ariths)
    from lt "1.prems" have "drop (unat i) (take 128 hdr) =
        hdr ! unat i # drop (Suc (unat i)) (take 128 hdr)"
      by (simp add: Cons_nth_drop_Suc [symmetric])
    moreover have "hdr_cksum_loop hdr i acc =
        hdr_cksum_loop hdr (i + 1) (mzf_cksum_add acc (hdr ! unat i))"
      using True by (subst hdr_cksum_loop.simps) simp
    moreover have "hdr_cksum_loop hdr (i + 1) (mzf_cksum_add acc (hdr ! unat i)) =
        mzf_cksum_add acc (hdr ! unat i) +
        of_nat (sum_list (map bits_set (drop (unat (i + 1)) (take 128 hdr))))"
      using True lt suc "1.prems" by (intro "1.IH") simp_all
    ultimately show ?thesis by (simp add: suc cksum_add_unat)
  next
    case False
    with "1.prems" have "unat i = 128" by (simp add: word_less_nat_alt)
    moreover have "hdr_cksum_loop hdr i acc = acc"
      using False by (subst hdr_cksum_loop.simps) simp
    ultimately show ?thesis by simp
  qed
qed

subsection \<open>One tick of the MZF encoder\<close>

lemma emit_leader_up:
  "\<not> mzf_leader_done s \<Longrightarrow> mzf_half s = 0 \<Longrightarrow>
   mzf_emit_byte_half s = s\<lparr>currentPeriod := 464, mzf_half := 1\<rparr>"
  by (simp add: mzf_emit_byte_half_def mzf_emit_pulse_def mzf_consts)

lemma emit_leader_down:
  "\<not> mzf_leader_done s \<Longrightarrow> mzf_half s \<noteq> 0 \<Longrightarrow>
   mzf_emit_byte_half s = s\<lparr>currentPeriod := 494, mzf_half := 0, mzf_leader_done := True\<rparr>"
  by (simp add: mzf_emit_byte_half_def mzf_emit_pulse_def mzf_consts)

lemma emit_bit_up:
  "mzf_leader_done s \<Longrightarrow> mzf_half s = 0 \<Longrightarrow>
   mzf_emit_byte_half s =
     s\<lparr>currentPeriod := (if mzf_cur_byte s AND mzf_bit_mask s \<noteq> 0 then 464 else 240),
       mzf_half := 1\<rparr>"
  by (simp add: mzf_emit_byte_half_def mzf_emit_pulse_def mzf_consts)

lemma emit_bit_down:
  "mzf_leader_done s \<Longrightarrow> mzf_half s \<noteq> 0 \<Longrightarrow>
   mzf_emit_byte_half s =
     s\<lparr>currentPeriod := (if mzf_cur_byte s AND mzf_bit_mask s \<noteq> 0 then 494 else 264),
       mzf_half := 0, mzf_bit_mask := drop_bit 1 (mzf_bit_mask s),
       mzf_have_byte := (if drop_bit 1 (mzf_bit_mask s) = 0 then False else mzf_have_byte s)\<rparr>"
  by (simp add: mzf_emit_byte_half_def mzf_emit_pulse_def mzf_consts Let_def)

lemma emit_period_nonzero: "currentPeriod (mzf_emit_byte_half s) \<noteq> 0"
  by (simp add: mzf_emit_byte_half_def mzf_emit_pulse_def mzf_consts Let_def split: prod.split)

lemma process_bytes_have: "mzf_have_byte s \<Longrightarrow> mzf_process_bytes n s = mzf_emit_byte_half s"
  by (simp add: mzf_process_bytes_def)

lemma process_have:
  "is_bytes_stage (mzf_stage s) \<Longrightarrow> mzf_have_byte s \<Longrightarrow> mzf_process s = mzf_emit_byte_half s"
  by (cases "mzf_stage s")
     (simp_all add: mzf_process_def mzf_bytes_stage_def process_bytes_have emit_period_nonzero
        Let_def)

lemma mask_bits:
  "(b AND 0x80 \<noteq> 0) = bit b 7" "(b AND 0x40 \<noteq> 0) = bit b 6"
  "(b AND 0x20 \<noteq> 0) = bit b 5" "(b AND 0x10 \<noteq> 0) = bit b 4"
  "(b AND 0x08 \<noteq> 0) = bit b 3" "(b AND 0x04 \<noteq> 0) = bit b 2"
  "(b AND 0x02 \<noteq> 0) = bit b 1" "(b AND 0x01 \<noteq> 0) = bit b 0"
  for b :: byte
  using bit_iff_and_push_bit_not_eq_0 [of b 7] bit_iff_and_push_bit_not_eq_0 [of b 6]
    bit_iff_and_push_bit_not_eq_0 [of b 5] bit_iff_and_push_bit_not_eq_0 [of b 4]
    bit_iff_and_push_bit_not_eq_0 [of b 3] bit_iff_and_push_bit_not_eq_0 [of b 2]
    bit_iff_and_push_bit_not_eq_0 [of b 1] bit_iff_and_push_bit_not_eq_0 [of b 0]
  by simp_all

lemmas byte_ticks = emit_leader_up emit_leader_down emit_bit_up emit_bit_down

text \<open>What a successful load leaves alone, and what it sets.\<close>

lemma load_success:
  assumes "mzf_load_next_byte s = (True, s1)"
  shows "mzf_stage s1 = mzf_stage s" "mzf_half s1 = mzf_half s" "mzf_have_byte s1"
    "mzf_src s1 = mzf_src s" "currentID s1 = currentID s"
  using assms
  by (auto simp: mzf_load_next_byte_def ReadByte_def Let_def split: if_splits)

lemma load_failure:
  assumes "mzf_load_next_byte s = (False, s1)"
  shows "s1 = s"
  using assms
  by (auto simp: mzf_load_next_byte_def ReadByte_def Let_def split: if_splits)

lemma process_bytes_load:
  assumes "\<not> mzf_have_byte s" "mzf_load_next_byte s = (True, s1)"
  shows "mzf_process_bytes n s =
           mzf_process_bytes n (s1\<lparr>mzf_leader_done := False, mzf_bit_mask := 0x80\<rparr>)"
  using assms load_success(3) [OF assms(2)] by (simp add: mzf_process_bytes_def)

lemma process_load:
  assumes "is_bytes_stage (mzf_stage s)" "\<not> mzf_have_byte s"
    "mzf_load_next_byte s = (True, s1)"
  shows "mzf_process s = mzf_process (s1\<lparr>mzf_leader_done := False, mzf_bit_mask := 0x80\<rparr>)"
proof -
  let ?t = "s1\<lparr>mzf_leader_done := False, mzf_bit_mask := 0x80\<rparr>"
  have st: "mzf_stage ?t = mzf_stage s" using load_success(1) [OF assms(3)] by simp
  have pb: "mzf_process_bytes n s = mzf_process_bytes n ?t" for n
    by (rule process_bytes_load [OF assms(2,3)])
  show ?thesis
    using assms(1) st
    by (cases "mzf_stage s") (simp_all add: mzf_process_def mzf_bytes_stage_def pb)
qed

subsection \<open>One byte of the MZF encoder\<close>

lemma loaded_byte_trace:
  assumes "is_bytes_stage (mzf_stage t)" "mzf_have_byte t" "\<not> mzf_leader_done t"
    "mzf_bit_mask t = 0x80" "mzf_half t = 0"
  shows "trace stage_period mzf_process 18 t = map (Pair (mzf_stage t)) (byte_wave (mzf_cur_byte t))"
  using assms
  by (simp add: trace_numeral process_have byte_ticks mask_bits byte_wave_def pulse_halves_def
      stage_period_def split del: if_split)

lemma loaded_byte_after:
  assumes "is_bytes_stage (mzf_stage t)" "mzf_have_byte t" "\<not> mzf_leader_done t"
    "mzf_bit_mask t = 0x80" "mzf_half t = 0"
  shows "after mzf_process 18 t =
     t\<lparr>currentPeriod := (if bit (mzf_cur_byte t) 0 then 494 else 264), mzf_half := 0,
       mzf_leader_done := True, mzf_bit_mask := 0, mzf_have_byte := False\<rparr>"
  using assms
  by (simp add: after_numeral process_have byte_ticks mask_bits split del: if_split)

lemma trace_cong_first:
  "f s = f t \<Longrightarrow> obs s (f s) = obs t (f t) \<Longrightarrow> trace obs f (Suc n) s = trace obs f (Suc n) t"
  by simp

lemma after_cong_first: "f s = f t \<Longrightarrow> after f (Suc n) s = after f (Suc n) t"
  by simp

lemma byte_trace:
  assumes "is_bytes_stage (mzf_stage s)" "\<not> mzf_have_byte s" "mzf_half s = 0"
    "mzf_load_next_byte s = (True, s1)"
  shows "trace stage_period mzf_process 18 s =
           map (Pair (mzf_stage s)) (byte_wave (mzf_cur_byte s1))"
proof -
  let ?t = "s1\<lparr>mzf_leader_done := False, mzf_bit_mask := 0x80\<rparr>"
  note ls = load_success [OF assms(4)]
  have eq: "mzf_process s = mzf_process ?t" by (rule process_load [OF assms(1,2,4)])
  have "trace stage_period mzf_process (Suc 17) s = trace stage_period mzf_process (Suc 17) ?t"
    by (rule trace_cong_first) (simp_all add: eq stage_period_def ls)
  moreover have "trace stage_period mzf_process 18 ?t =
      map (Pair (mzf_stage ?t)) (byte_wave (mzf_cur_byte ?t))"
    by (rule loaded_byte_trace) (simp_all add: ls assms)
  ultimately show ?thesis by (simp add: ls)
qed

lemma byte_after:
  assumes "is_bytes_stage (mzf_stage s)" "\<not> mzf_have_byte s" "mzf_half s = 0"
    "mzf_load_next_byte s = (True, s1)"
  shows "after mzf_process 18 s =
           s1\<lparr>currentPeriod := (if bit (mzf_cur_byte s1) 0 then 494 else 264), mzf_half := 0,
              mzf_leader_done := True, mzf_bit_mask := 0, mzf_have_byte := False\<rparr>"
proof -
  let ?t = "s1\<lparr>mzf_leader_done := False, mzf_bit_mask := 0x80\<rparr>"
  note ls = load_success [OF assms(4)]
  have eq: "mzf_process s = mzf_process ?t" by (rule process_load [OF assms(1,2,4)])
  have "after mzf_process (Suc 17) s = after mzf_process (Suc 17) ?t"
    by (rule after_cong_first) (rule eq)
  moreover have "after mzf_process 18 ?t =
     ?t\<lparr>currentPeriod := (if bit (mzf_cur_byte ?t) 0 then 494 else 264), mzf_half := 0,
       mzf_leader_done := True, mzf_bit_mask := 0, mzf_have_byte := False\<rparr>"
    by (rule loaded_byte_after) (simp_all add: ls assms)
  ultimately show ?thesis by simp
qed

subsection \<open>The shapes of a tick\<close>

lemma pulse_stage_up:
  "mzf_half s = 0 \<Longrightarrow>
   mzf_pulse_stage L k s =
     s\<lparr>currentPeriod := (if L then 464 else 240), mzf_half := 1\<rparr>"
  by (simp add: mzf_pulse_stage_def mzf_emit_pulse_def mzf_consts)

lemma pulse_stage_down:
  "mzf_half s \<noteq> 0 \<Longrightarrow>
   mzf_pulse_stage L k s =
     k (s\<lparr>currentPeriod := (if L then 494 else 264), mzf_half := 0\<rparr>)"
  by (simp add: mzf_pulse_stage_def mzf_emit_pulse_def mzf_consts)

lemma bytes_stage_emit:
  "mzf_have_byte s \<Longrightarrow> mzf_bytes_stage n k s = mzf_emit_byte_half s"
  by (simp add: mzf_bytes_stage_def process_bytes_have emit_period_nonzero Let_def)

lemma bytes_stage_load:
  assumes "\<not> mzf_have_byte s" "mzf_load_next_byte s = (True, s1)"
  shows "mzf_bytes_stage n k s =
           mzf_emit_byte_half (s1\<lparr>mzf_leader_done := False, mzf_bit_mask := 0x80\<rparr>)"
  using assms
  by (simp add: mzf_bytes_stage_def mzf_process_bytes_def emit_period_nonzero Let_def)

lemma bytes_stage_end:
  assumes "\<not> mzf_have_byte s" "mzf_load_next_byte s = (False, s1)"
  shows "mzf_bytes_stage n k s = k (s\<lparr>currentPeriod := 0\<rparr>)"
  using assms load_failure [OF assms(2)]
  by (simp add: mzf_bytes_stage_def mzf_process_bytes_def Let_def)

lemma emit_byte_half_frame:
  "mzf_stage (mzf_emit_byte_half s) = mzf_stage s"
  "currentID (mzf_emit_byte_half s) = currentID s"
  "mzf_src (mzf_emit_byte_half s) = mzf_src s"
  by (simp_all add: mzf_emit_byte_half_def mzf_emit_pulse_def Let_def split: prod.split)

lemma emit_byte_half_period:
  "currentPeriod (mzf_emit_byte_half s) \<in> (if mzf_half s = 0 then {464, 240} else {494, 264})"
  by (simp add: mzf_emit_byte_half_def mzf_emit_pulse_def mzf_consts Let_def)

lemma emit_byte_half_half:
  "mzf_half (mzf_emit_byte_half s) = (if mzf_half s = 0 then 1 else 0)"
  by (simp add: mzf_emit_byte_half_def mzf_emit_pulse_def mzf_consts Let_def)

lemma emit_byte_half_have:
  "mzf_half s = 0 \<Longrightarrow> mzf_have_byte (mzf_emit_byte_half s) = mzf_have_byte s"
  by (simp add: mzf_emit_byte_half_def mzf_emit_pulse_def mzf_consts Let_def)

text \<open>Every tick in a stage that sends bytes is one of three things.\<close>

lemma bytes_stage_cases:
  obtains (emit) "mzf_have_byte s" "mzf_bytes_stage n k s = mzf_emit_byte_half s"
  | (load) s1 where "\<not> mzf_have_byte s" "mzf_load_next_byte s = (True, s1)"
      "mzf_bytes_stage n k s =
         mzf_emit_byte_half (s1\<lparr>mzf_leader_done := False, mzf_bit_mask := 0x80\<rparr>)"
  | (finish) "\<not> mzf_have_byte s" "mzf_load_next_byte s = (False, s)"
      "mzf_bytes_stage n k s = k (s\<lparr>currentPeriod := 0\<rparr>)"
proof (cases "mzf_have_byte s")
  case True
  then show ?thesis using emit bytes_stage_emit by blast
next
  case False
  obtain ok s1 where l: "mzf_load_next_byte s = (ok, s1)" by (cases "mzf_load_next_byte s")
  show ?thesis
  proof (cases ok)
    case True
    with l have l1: "mzf_load_next_byte s = (True, s1)" by simp
    show ?thesis by (rule load [OF False l1 bytes_stage_load [OF False l1]])
  next
    case no: False
    with l have l0: "mzf_load_next_byte s = (False, s1)" by simp
    then have "s1 = s" by (rule load_failure)
    with l0 have l2: "mzf_load_next_byte s = (False, s)" by simp
    show ?thesis by (rule finish [OF False l2 bytes_stage_end [OF False l2]])
  qed
qed

text \<open>Every case of \<open>mzf_process\<close> is one of the two shapes.\<close>

lemma process_at:
  "mzf_stage t = LGAP1 \<Longrightarrow> mzf_process t =
     mzf_pulse_stage False
       (dec_pulses_left (\<lambda>t. mzf_next_stage LTM_LONG (t\<lparr>mzf_tm_left := MZF_LTM_LONGS\<rparr>))) t"
  "mzf_stage t = LTM_LONG \<Longrightarrow> mzf_process t =
     mzf_pulse_stage True
       (dec_tm_left (\<lambda>t. mzf_next_stage LTM_SHORT (t\<lparr>mzf_tm_left := MZF_LTM_SHORTS\<rparr>))) t"
  "mzf_stage t = LTM_SHORT \<Longrightarrow> mzf_process t =
     mzf_pulse_stage False (dec_tm_left (mzf_next_stage LTM_ENDLONG)) t"
  "mzf_stage t = LTM_ENDLONG \<Longrightarrow> mzf_process t =
     mzf_pulse_stage True
       (\<lambda>t. mzf_next_stage HDR1 (mzf_reset_byte_writer_for_src HDR (t\<lparr>mzf_hdr_idx := 0\<rparr>))) t"
  "mzf_stage t = SGAP \<Longrightarrow> mzf_process t =
     mzf_pulse_stage False
       (dec_pulses_left (\<lambda>t. mzf_next_stage STM_LONG (t\<lparr>mzf_tm_left := MZF_STM_LONGS\<rparr>))) t"
  "mzf_stage t = STM_LONG \<Longrightarrow> mzf_process t =
     mzf_pulse_stage True
       (dec_tm_left (\<lambda>t. mzf_next_stage STM_SHORT (t\<lparr>mzf_tm_left := MZF_STM_SHORTS\<rparr>))) t"
  "mzf_stage t = STM_SHORT \<Longrightarrow> mzf_process t =
     mzf_pulse_stage False (dec_tm_left (mzf_next_stage STM_ENDLONG)) t"
  "mzf_stage t = STM_ENDLONG \<Longrightarrow> mzf_process t =
     mzf_pulse_stage True
       (\<lambda>t. mzf_next_stage FILE1
              (mzf_reset_byte_writer_for_src FILE
                (t\<lparr>bytesRead := 128, mzf_file_left := mzf_file_len t,
                   mzf_file_cksum := 0\<rparr>))) t"
  by (simp_all add: mzf_process_def mzf_pulse_stage_def dec_pulses_left_def dec_tm_left_def
      Let_def split: prod.split bool.split)

lemma process_at_bytes:
  "mzf_stage t = HDR1 \<Longrightarrow> mzf_process t =
     mzf_bytes_stage 128 (\<lambda>t. mzf_next_stage CHKH1 (mzf_reset_byte_writer_for_src CHK t)) t"
  "mzf_stage t = CHKH1 \<Longrightarrow> mzf_process t =
     mzf_bytes_stage 2
       (\<lambda>t. mzf_next_stage HDR2 (mzf_reset_byte_writer_for_src HDR (t\<lparr>mzf_hdr_idx := 0\<rparr>))) t"
  "mzf_stage t = HDR2 \<Longrightarrow> mzf_process t =
     mzf_bytes_stage 128 (\<lambda>t. mzf_next_stage CHKH2 (mzf_reset_byte_writer_for_src CHK t)) t"
  "mzf_stage t = CHKH2 \<Longrightarrow> mzf_process t =
     mzf_bytes_stage 2
       (\<lambda>t. mzf_next_stage SGAP (t\<lparr>mzf_pulses_left := ucast MZF_SGAP_PULSES\<rparr>)) t"
  "mzf_stage t = FILE1 \<Longrightarrow> mzf_process t =
     mzf_bytes_stage 0 (\<lambda>t. mzf_next_stage CHKF1 (mzf_reset_byte_writer_for_src CHK t)) t"
  "mzf_stage t = CHKF1 \<Longrightarrow> mzf_process t =
     mzf_bytes_stage 2 (mzf_next_stage MZF_STAGE.DONE) t"
  "mzf_stage t = FILE2 \<Longrightarrow> mzf_process t =
     mzf_bytes_stage 0 (\<lambda>t. mzf_next_stage CHKF2 (mzf_reset_byte_writer_for_src CHK t)) t"
  "mzf_stage t = CHKF2 \<Longrightarrow> mzf_process t =
     mzf_bytes_stage 2 (mzf_next_stage MZF_STAGE.DONE) t"
  by (simp_all add: mzf_process_def mzf_bytes_stage_def Let_def)

subsection \<open>Periods and the half flag across a tick\<close>

lemmas mzf_cont_defs =
  dec_pulses_left_def dec_tm_left_def mzf_next_stage_def mzf_reset_byte_writer_for_src_def

lemma mzf_process_period:
  "currentPeriod (mzf_process s) \<in> {0, 464, 494, 240, 264}"
proof -
  have p: "currentPeriod (mzf_pulse_stage L k s) \<in> {0, 464, 494, 240, 264}"
    if "\<And>t. currentPeriod (k t) = currentPeriod t" for L k
    by (cases "mzf_half s = 0") (simp_all add: pulse_stage_up pulse_stage_down that)
  have b: "currentPeriod (mzf_bytes_stage n k s) \<in> {0, 464, 494, 240, 264}"
    if "\<And>t. currentPeriod (k t) = currentPeriod t" for n k
  proof (cases rule: bytes_stage_cases [of s n k])
    case emit
    then show ?thesis using emit_byte_half_period [of s] by (auto split: if_splits)
  next
    case (load s1)
    then show ?thesis
      using emit_byte_half_period [of "s1\<lparr>mzf_leader_done := False, mzf_bit_mask := 0x80\<rparr>"]
      by (auto split: if_splits)
  next
    case finish
    then show ?thesis by (simp add: that)
  qed
  show ?thesis
    by (cases "mzf_stage s"; (simp only: process_at process_at_bytes)?; (rule p b)?;
        simp add: mzf_cont_defs mzf_process_def Let_def)
qed

lemma half_ok_pulse_stage:
  assumes ok: "half_ok s" and nb: "\<not> is_bytes_stage (mzf_stage s)"
    and k: "\<And>t. currentPeriod (k t) = currentPeriod t" "\<And>t. mzf_half t = 0 \<Longrightarrow> mzf_half (k t) = 0"
  shows "half_ok (mzf_pulse_stage L k s) \<and> tick_ok s (mzf_pulse_stage L k s)"
proof (cases "mzf_half s = 0")
  case True
  then show ?thesis using nb by (simp add: pulse_stage_up half_ok_def tick_ok_def)
next
  case False
  with ok have one: "mzf_half s = 1" by (simp add: half_ok_def)
  let ?t = "s\<lparr>currentPeriod := (if L then 494 else 264), mzf_half := 0\<rparr>"
  have "mzf_half (k ?t) = 0" by (rule k(2)) simp
  moreover have "currentPeriod (k ?t) = (if L then 494 else 264)" by (simp add: k(1))
  ultimately show ?thesis
    using False one by (simp add: pulse_stage_down half_ok_def tick_ok_def)
qed

lemma half_ok_bytes_stage:
  assumes ok: "half_ok s" and b: "is_bytes_stage (mzf_stage s)"
    and k: "\<And>t. currentPeriod (k t) = currentPeriod t" "\<And>t. mzf_half (k t) = 0"
  shows "half_ok (mzf_bytes_stage n k s) \<and> tick_ok s (mzf_bytes_stage n k s)"
proof (cases rule: bytes_stage_cases [of s n k])
  case emit
  have "currentPeriod (mzf_emit_byte_half s) = 464 \<or> currentPeriod (mzf_emit_byte_half s) = 240"
    if "mzf_half s = 0"
    using emit_byte_half_period [of s] that by simp
  then show ?thesis
    using emit ok b
    by (simp add: half_ok_def tick_ok_def emit_byte_half_frame emit_byte_half_half
        emit_byte_half_have)
next
  case (load s1)
  let ?t = "s1\<lparr>mzf_leader_done := False, mzf_bit_mask := 0x80\<rparr>"
  note ls = load_success [OF load(2)]
  from ok b load(1) have h: "mzf_half s = 0" by (auto simp: half_ok_def)
  then have ht: "mzf_half ?t = 0" by (simp add: ls)
  have "currentPeriod (mzf_emit_byte_half ?t) = 464 \<or> currentPeriod (mzf_emit_byte_half ?t) = 240"
    using emit_byte_half_period [of ?t] ht by simp
  then show ?thesis
    using load(3) h ht b ls
    by (simp add: half_ok_def tick_ok_def emit_byte_half_frame emit_byte_half_half
        emit_byte_half_have)
next
  case finish
  from ok b finish(1) have h: "mzf_half s = 0" by (auto simp: half_ok_def)
  then show ?thesis
    using finish(3) by (simp add: half_ok_def tick_ok_def k)
qed

lemma half_ok_process:
  assumes "half_ok s"
  shows "half_ok (mzf_process s) \<and> tick_ok s (mzf_process s)"
proof (cases "mzf_stage s = MZF_STAGE.DONE")
  case True
  with assms show ?thesis by (simp add: mzf_process_def half_ok_def tick_ok_def)
next
  case False
  show ?thesis
  proof (cases "is_bytes_stage (mzf_stage s)")
    case True
    then show ?thesis
      by (cases "mzf_stage s"; simp only: is_bytes_stage.simps;
          simp only: process_at_bytes; intro half_ok_bytes_stage assms;
          simp add: mzf_cont_defs Let_def)
  next
    case nb: False
    then show ?thesis
      using False
      by (cases "mzf_stage s"; simp only: is_bytes_stage.simps;
          (simp only: process_at)?; (intro half_ok_pulse_stage assms)?;
          simp add: mzf_cont_defs Let_def)
  qed
qed

lemma half_ok_init: "half_ok (mzf_init s)"
  by (simp add: mzf_init_def half_ok_def mzf_next_stage_def Let_def split: prod.split)

lemma half_ok_after: "half_ok s \<Longrightarrow> half_ok (after mzf_process n s)"
  by (induction n arbitrary: s) (simp_all add: half_ok_process)

subsection \<open>Runs of pulses\<close>

lemma pulse_two_ticks:
  assumes step: "\<And>t. mzf_stage t = X \<Longrightarrow> mzf_process t = mzf_pulse_stage L k t"
    and s: "mzf_stage s = X" "mzf_half s = 0"
  shows "mzf_process s = s\<lparr>currentPeriod := (if L then 464 else 240), mzf_half := 1\<rparr>"
    and "mzf_process (mzf_process s) =
           k (s\<lparr>currentPeriod := (if L then 494 else 264), mzf_half := 0\<rparr>)"
proof -
  show 1: "mzf_process s = s\<lparr>currentPeriod := (if L then 464 else 240), mzf_half := 1\<rparr>"
    using s by (simp add: step pulse_stage_up)
  show "mzf_process (mzf_process s) =
           k (s\<lparr>currentPeriod := (if L then 494 else 264), mzf_half := 0\<rparr>)"
    using s by (simp add: 1 step pulse_stage_down)
qed

lemma pulses_Suc: "pulses X L (Suc n) = map (Pair X) (pulse_halves L) @ pulses X L n"
  by (simp add: pulses_def)

lemma word_pred_facts:
  fixes p :: "'a::len word"
  assumes "unat p = Suc m"
  shows "unat (p - 1) = m" and "(p - 1 = 0) = (m = 0)"
proof -
  from assms have "p \<noteq> 0" by (auto simp: unat_eq_0 [symmetric] simp del: unat_eq_0)
  then show 1: "unat (p - 1) = m" using assms by (simp add: unat_minus_one)
  show "(p - 1 = 0) = (m = 0)" using 1 by (metis unat_eq_0)
qed

lemma gap_phase:
  assumes step: "\<And>t. mzf_stage t = X \<Longrightarrow>
      mzf_process t = mzf_pulse_stage L (dec_pulses_left k) t"
    and kp: "\<And>t. currentPeriod (k t) = currentPeriod t"
    and s: "mzf_stage s = X" "mzf_half s = 0" "unat (mzf_pulses_left s) = Suc n"
  shows "trace stage_period mzf_process (2 * Suc n) s = pulses X L (Suc n) \<and>
         after mzf_process (2 * Suc n) s =
           k (s\<lparr>currentPeriod := (if L then 494 else 264), mzf_half := 0,
                 mzf_pulses_left := 0\<rparr>)"
  using s
proof (induction n arbitrary: s)
  case 0
  note two = pulse_two_ticks [OF step "0.prems"(1,2)]
  from word_pred_facts [OF "0.prems"(3)] have z: "mzf_pulses_left s - 1 = 0" by simp
  have next2: "mzf_process (mzf_process s) =
      k (s\<lparr>currentPeriod := (if L then 494 else 264), mzf_half := 0, mzf_pulses_left := 0\<rparr>)"
    by (simp add: two(2) dec_pulses_left_def z)
  have split2: "2 * Suc 0 = Suc (Suc 0)" by simp
  show ?case
    unfolding split2 trace.simps after.simps next2
    using "0.prems"(1)
    by (simp add: two(1) kp stage_period_def pulses_def pulse_halves_def)
next
  case (Suc n)
  note two = pulse_two_ticks [OF step Suc.prems(1,2)]
  from word_pred_facts [OF Suc.prems(3)]
  have u: "unat (mzf_pulses_left s - 1) = Suc n" and nz: "mzf_pulses_left s - 1 \<noteq> 0"
    by simp_all
  let ?s' = "s\<lparr>currentPeriod := (if L then 494 else 264), mzf_half := 0,
               mzf_pulses_left := mzf_pulses_left s - 1\<rparr>"
  have next2: "mzf_process (mzf_process s) = ?s'"
    using nz by (simp add: two(2) dec_pulses_left_def Let_def)
  have ih: "trace stage_period mzf_process (2 * Suc n) ?s' = pulses X L (Suc n) \<and>
         after mzf_process (2 * Suc n) ?s' =
           k (?s'\<lparr>currentPeriod := (if L then 494 else 264), mzf_half := 0,
                 mzf_pulses_left := 0\<rparr>)"
    by (rule Suc.IH) (simp_all add: Suc.prems u)
  have split2: "2 * Suc (Suc n) = Suc (Suc (2 * Suc n))" by simp
  have tr: "trace stage_period mzf_process (2 * Suc (Suc n)) s =
      map (Pair X) (pulse_halves L) @ trace stage_period mzf_process (2 * Suc n) ?s'"
    unfolding split2 trace.simps next2
    using Suc.prems(1) by (simp add: two(1) stage_period_def pulse_halves_def)
  have af: "after mzf_process (2 * Suc (Suc n)) s = after mzf_process (2 * Suc n) ?s'"
    unfolding split2 after.simps next2 ..
  show ?case
    unfolding tr af using ih by (simp add: pulses_Suc [of X L "Suc n"])
qed

lemma tm_phase:
  assumes step: "\<And>t. mzf_stage t = X \<Longrightarrow>
      mzf_process t = mzf_pulse_stage L (dec_tm_left k) t"
    and kp: "\<And>t. currentPeriod (k t) = currentPeriod t"
    and s: "mzf_stage s = X" "mzf_half s = 0" "unat (mzf_tm_left s) = Suc n"
  shows "trace stage_period mzf_process (2 * Suc n) s = pulses X L (Suc n) \<and>
         after mzf_process (2 * Suc n) s =
           k (s\<lparr>currentPeriod := (if L then 494 else 264), mzf_half := 0,
                 mzf_tm_left := 0\<rparr>)"
  using s
proof (induction n arbitrary: s)
  case 0
  note two = pulse_two_ticks [OF step "0.prems"(1,2)]
  from word_pred_facts [OF "0.prems"(3)] have z: "mzf_tm_left s - 1 = 0" by simp
  have next2: "mzf_process (mzf_process s) =
      k (s\<lparr>currentPeriod := (if L then 494 else 264), mzf_half := 0, mzf_tm_left := 0\<rparr>)"
    by (simp add: two(2) dec_tm_left_def z)
  have split2: "2 * Suc 0 = Suc (Suc 0)" by simp
  show ?case
    unfolding split2 trace.simps after.simps next2
    using "0.prems"(1)
    by (simp add: two(1) kp stage_period_def pulses_def pulse_halves_def)
next
  case (Suc n)
  note two = pulse_two_ticks [OF step Suc.prems(1,2)]
  from word_pred_facts [OF Suc.prems(3)]
  have u: "unat (mzf_tm_left s - 1) = Suc n" and nz: "mzf_tm_left s - 1 \<noteq> 0"
    by simp_all
  let ?s' = "s\<lparr>currentPeriod := (if L then 494 else 264), mzf_half := 0,
               mzf_tm_left := mzf_tm_left s - 1\<rparr>"
  have next2: "mzf_process (mzf_process s) = ?s'"
    using nz by (simp add: two(2) dec_tm_left_def Let_def)
  have ih: "trace stage_period mzf_process (2 * Suc n) ?s' = pulses X L (Suc n) \<and>
         after mzf_process (2 * Suc n) ?s' =
           k (?s'\<lparr>currentPeriod := (if L then 494 else 264), mzf_half := 0,
                 mzf_tm_left := 0\<rparr>)"
    by (rule Suc.IH) (simp_all add: Suc.prems u)
  have split2: "2 * Suc (Suc n) = Suc (Suc (2 * Suc n))" by simp
  have tr: "trace stage_period mzf_process (2 * Suc (Suc n)) s =
      map (Pair X) (pulse_halves L) @ trace stage_period mzf_process (2 * Suc n) ?s'"
    unfolding split2 trace.simps next2
    using Suc.prems(1) by (simp add: two(1) stage_period_def pulse_halves_def)
  have af: "after mzf_process (2 * Suc (Suc n)) s = after mzf_process (2 * Suc n) ?s'"
    unfolding split2 after.simps next2 ..
  show ?case
    unfolding tr af using ih by (simp add: pulses_Suc [of X L "Suc n"])
qed

subsection \<open>The gaps and the tapemarks\<close>

lemmas mzf_counts =
  MZF_LGAP_PULSES_def MZF_SGAP_PULSES_def MZF_LTM_LONGS_def MZF_LTM_SHORTS_def
  MZF_STM_LONGS_def MZF_STM_SHORTS_def

lemma endlong_phase:
  assumes step: "\<And>t. mzf_stage t = X \<Longrightarrow> mzf_process t = mzf_pulse_stage True k t"
    and kp: "\<And>t. currentPeriod (k t) = currentPeriod t"
    and s: "mzf_stage s = X" "mzf_half s = 0"
  shows "trace stage_period mzf_process 2 s = pulses X True 1 \<and>
         after mzf_process 2 s = k (s\<lparr>currentPeriod := 494, mzf_half := 0\<rparr>)"
proof -
  note two = pulse_two_ticks [OF step s]
  have next2: "mzf_process (mzf_process s) = k (s\<lparr>currentPeriod := 494, mzf_half := 0\<rparr>)"
    by (simp add: two(2))
  have split2: "(2::nat) = Suc (Suc 0)" by simp
  show ?thesis
    unfolding split2 trace.simps after.simps next2
    using s(1) by (simp add: two(1) kp stage_period_def pulses_def pulse_halves_def)
qed

text \<open>From the entry of the long gap to the entry of the first header copy.\<close>

lemma leader_phase:
  assumes "mzf_stage s = LGAP1" "mzf_half s = 0" "mzf_pulses_left s = 22000"
  shows "trace stage_period mzf_process 44162 s =
           pulses LGAP1 False 22000 @ pulses LTM_LONG True 40 @ pulses LTM_SHORT False 40 @
           pulses LTM_ENDLONG True 1"
    and "after mzf_process 44162 s =
           s\<lparr>currentPeriod := 494, mzf_stage := HDR1, mzf_pulses_left := 0, mzf_tm_left := 0,
             mzf_src := HDR, mzf_hdr_idx := 0, mzf_have_byte := False,
             mzf_leader_done := False, mzf_bit_mask := 0x80, mzf_chk_byte_idx := 0,
             mzf_half := 0\<rparr>"
proof -
  let ?s1 = "mzf_next_stage LTM_LONG
      (s\<lparr>currentPeriod := 264, mzf_half := 0, mzf_pulses_left := 0,
         mzf_tm_left := MZF_LTM_LONGS\<rparr>)"
  have g: "trace stage_period mzf_process (2 * Suc 21999) s = pulses LGAP1 False (Suc 21999) \<and>
           after mzf_process (2 * Suc 21999) s = ?s1"
    using gap_phase [OF process_at(1) _ assms(1,2), where n = 21999] assms(3)
    by (simp add: mzf_next_stage_def)
  let ?s2 = "mzf_next_stage LTM_SHORT
      (?s1\<lparr>currentPeriod := 494, mzf_half := 0, mzf_tm_left := MZF_LTM_SHORTS\<rparr>)"
  have l: "trace stage_period mzf_process (2 * Suc 39) ?s1 = pulses LTM_LONG True (Suc 39) \<and>
           after mzf_process (2 * Suc 39) ?s1 = ?s2"
    using tm_phase [OF process_at(2), where s = ?s1 and n = 39]
    by (simp add: mzf_next_stage_def mzf_counts)
  let ?s3 = "mzf_next_stage LTM_ENDLONG
      (?s2\<lparr>currentPeriod := 264, mzf_half := 0, mzf_tm_left := 0\<rparr>)"
  have sh: "trace stage_period mzf_process (2 * Suc 39) ?s2 = pulses LTM_SHORT False (Suc 39) \<and>
           after mzf_process (2 * Suc 39) ?s2 = ?s3"
    using tm_phase [OF process_at(3), where s = ?s2 and n = 39]
    by (simp add: mzf_next_stage_def mzf_counts)
  let ?s4 = "mzf_next_stage HDR1 (mzf_reset_byte_writer_for_src HDR
      (?s3\<lparr>currentPeriod := 494, mzf_half := 0, mzf_hdr_idx := 0\<rparr>))"
  have e: "trace stage_period mzf_process 2 ?s3 = pulses LTM_ENDLONG True 1 \<and>
           after mzf_process 2 ?s3 = ?s4"
    using endlong_phase [OF process_at(4), where s = ?s3]
    by (simp add: mzf_next_stage_def mzf_reset_byte_writer_for_src_def)
  have n: "(44162::nat) = 2 * Suc 21999 + (2 * Suc 39 + (2 * Suc 39 + 2))" by simp
  have c: "Suc 21999 = 22000" "Suc 39 = 40" by simp_all
  show "trace stage_period mzf_process 44162 s =
           pulses LGAP1 False 22000 @ pulses LTM_LONG True 40 @ pulses LTM_SHORT False 40 @
           pulses LTM_ENDLONG True 1"
    unfolding n trace_add after_add using g l sh e by (simp only: c)
  show "after mzf_process 44162 s =
           s\<lparr>currentPeriod := 494, mzf_stage := HDR1, mzf_pulses_left := 0, mzf_tm_left := 0,
             mzf_src := HDR, mzf_hdr_idx := 0, mzf_have_byte := False,
             mzf_leader_done := False, mzf_bit_mask := 0x80, mzf_chk_byte_idx := 0,
             mzf_half := 0\<rparr>"
    unfolding n after_add using g l sh e
    by (simp add: mzf_next_stage_def mzf_reset_byte_writer_for_src_def mzf_counts)
qed

text \<open>From the entry of the short gap to the entry of the file body.\<close>

lemma trailer_phase:
  assumes "mzf_stage s = SGAP" "mzf_half s = 0" "mzf_pulses_left s = 11000"
  shows "trace stage_period mzf_process 22082 s =
           pulses SGAP False 11000 @ pulses STM_LONG True 20 @ pulses STM_SHORT False 20 @
           pulses STM_ENDLONG True 1"
    and "after mzf_process 22082 s =
           s\<lparr>currentPeriod := 494, bytesRead := 128, mzf_stage := FILE1,
             mzf_file_cksum := 0, mzf_pulses_left := 0, mzf_file_left := mzf_file_len s,
             mzf_tm_left := 0, mzf_src := FILE, mzf_have_byte := False,
             mzf_leader_done := False, mzf_bit_mask := 0x80, mzf_chk_byte_idx := 0,
             mzf_half := 0\<rparr>"
proof -
  let ?s1 = "mzf_next_stage STM_LONG
      (s\<lparr>currentPeriod := 264, mzf_half := 0, mzf_pulses_left := 0,
         mzf_tm_left := MZF_STM_LONGS\<rparr>)"
  have g: "trace stage_period mzf_process (2 * Suc 10999) s = pulses SGAP False (Suc 10999) \<and>
           after mzf_process (2 * Suc 10999) s = ?s1"
    using gap_phase [OF process_at(5) _ assms(1,2), where n = 10999] assms(3)
    by (simp add: mzf_next_stage_def)
  let ?s2 = "mzf_next_stage STM_SHORT
      (?s1\<lparr>currentPeriod := 494, mzf_half := 0, mzf_tm_left := MZF_STM_SHORTS\<rparr>)"
  have l: "trace stage_period mzf_process (2 * Suc 19) ?s1 = pulses STM_LONG True (Suc 19) \<and>
           after mzf_process (2 * Suc 19) ?s1 = ?s2"
    using tm_phase [OF process_at(6), where s = ?s1 and n = 19]
    by (simp add: mzf_next_stage_def mzf_counts)
  let ?s3 = "mzf_next_stage STM_ENDLONG
      (?s2\<lparr>currentPeriod := 264, mzf_half := 0, mzf_tm_left := 0\<rparr>)"
  have sh: "trace stage_period mzf_process (2 * Suc 19) ?s2 = pulses STM_SHORT False (Suc 19) \<and>
           after mzf_process (2 * Suc 19) ?s2 = ?s3"
    using tm_phase [OF process_at(7), where s = ?s2 and n = 19]
    by (simp add: mzf_next_stage_def mzf_counts)
  let ?t = "?s3\<lparr>currentPeriod := 494, mzf_half := 0\<rparr>"
  let ?s4 = "mzf_next_stage FILE1 (mzf_reset_byte_writer_for_src FILE
      (?t\<lparr>bytesRead := 128, mzf_file_left := mzf_file_len ?t, mzf_file_cksum := 0\<rparr>))"
  have e: "trace stage_period mzf_process 2 ?s3 = pulses STM_ENDLONG True 1 \<and>
           after mzf_process 2 ?s3 = ?s4"
    using endlong_phase [OF process_at(8), where s = ?s3]
    by (simp add: mzf_next_stage_def mzf_reset_byte_writer_for_src_def)
  have n: "(22082::nat) = 2 * Suc 10999 + (2 * Suc 19 + (2 * Suc 19 + 2))" by simp
  have c: "Suc 10999 = 11000" "Suc 19 = 20" by simp_all
  show "trace stage_period mzf_process 22082 s =
           pulses SGAP False 11000 @ pulses STM_LONG True 20 @ pulses STM_SHORT False 20 @
           pulses STM_ENDLONG True 1"
    unfolding n trace_add after_add using g l sh e by (simp only: c)
  show "after mzf_process 22082 s =
           s\<lparr>currentPeriod := 494, bytesRead := 128, mzf_stage := FILE1,
             mzf_file_cksum := 0, mzf_pulses_left := 0, mzf_file_left := mzf_file_len s,
             mzf_tm_left := 0, mzf_src := FILE, mzf_have_byte := False,
             mzf_leader_done := False, mzf_bit_mask := 0x80, mzf_chk_byte_idx := 0,
             mzf_half := 0\<rparr>"
    unfolding n after_add using g l sh e
    by (simp add: mzf_next_stage_def mzf_reset_byte_writer_for_src_def mzf_counts)
qed

subsection \<open>A successful start\<close>

lemma read_block_ok:
  assumes "\<not> read_fails f" "128 \<le> length (contents f)"
  shows "read_block f buf 128 = (128, take 128 (contents f) @ drop 128 buf)"
  using assms by (simp add: read_block_def Let_def min_def)

lemma read_block_result:
  "fst (read_block f buf 128) = 128 \<longleftrightarrow> \<not> read_fails f \<and> 128 \<le> length (contents f)"
  by (auto simp: read_block_def Let_def min_def)

lemma mzf_init_ok:
  assumes "\<not> seek_fails (entry s)" "\<not> read_fails (entry s)" "128 \<le> length (contents (entry s))"
  shows "mzf_init s =
     s\<lparr>currentID := MZF, currentTask := PROCESSID, bytesRead := 128, mzf_stage := LGAP1,
       mzf_hdr := take 128 (contents (entry s)) @ drop 128 (mzf_hdr s),
       mzf_file_len := ucast (contents (entry s) ! 18) OR push_bit 8 (ucast (contents (entry s) ! 19)),
       mzf_hdr_cksum := hdr_cksum_loop (take 128 (contents (entry s)) @ drop 128 (mzf_hdr s)) 0 0,
       mzf_pulses_left := 22000, mzf_have_byte := False, mzf_leader_done := False,
       mzf_bit_mask := 0x80, mzf_chk_byte_idx := 0, mzf_half := 0\<rparr>"
  using assms
  by (simp add: mzf_init_def seekSet_def read_block_ok mzf_next_stage_def mzf_counts Let_def
      nth_append)

subsection \<open>Runs of bytes\<close>

lemma bytes_wave_Cons: "bytes_wave st (b # bs) = map (Pair st) (byte_wave b) @ bytes_wave st bs"
  by (simp add: bytes_wave_def)

lemma bytes_wave_Nil: "bytes_wave st [] = []"
  by (simp add: bytes_wave_def)

lemma settled_id:
  assumes "\<not> mzf_have_byte s" "mzf_half s = 0"
  shows "s\<lparr>mzf_have_byte := False, mzf_half := 0\<rparr> = s"
proof -
  have "s\<lparr>mzf_have_byte := mzf_have_byte s, mzf_half := mzf_half s\<rparr> = s" by simp
  then show ?thesis using assms by (simp del: mzf_state.update_convs)
qed

lemma hdr_load:
  assumes "mzf_src s = HDR" "unat (mzf_hdr_idx s) < 128"
  shows "mzf_load_next_byte s =
     (True, s\<lparr>mzf_cur_byte := mzf_hdr s ! unat (mzf_hdr_idx s),
               mzf_hdr_idx := mzf_hdr_idx s + 1, mzf_have_byte := True\<rparr>)"
    and "unat (mzf_hdr_idx s + 1) = Suc (unat (mzf_hdr_idx s))"
proof -
  from assms(2) have "\<not> 128 \<le> mzf_hdr_idx s" by (simp add: word_le_nat_alt)
  then show "mzf_load_next_byte s =
     (True, s\<lparr>mzf_cur_byte := mzf_hdr s ! unat (mzf_hdr_idx s),
               mzf_hdr_idx := mzf_hdr_idx s + 1, mzf_have_byte := True\<rparr>)"
    using assms(1) by (simp add: mzf_load_next_byte_def)
  show "unat (mzf_hdr_idx s + 1) = Suc (unat (mzf_hdr_idx s))"
    using assms(2) by (simp add: unat_word_ariths)
qed

lemma hdr_bytes:
  assumes "is_bytes_stage (mzf_stage s)" "mzf_src s = HDR" "\<not> mzf_have_byte s"
    "mzf_half s = 0" "unat (mzf_hdr_idx s) + m = 128" "128 \<le> length (mzf_hdr s)"
  shows "\<exists>cb cp ld bm.
     trace stage_period mzf_process (18 * m) s =
       bytes_wave (mzf_stage s) (drop (unat (mzf_hdr_idx s)) (take 128 (mzf_hdr s))) \<and>
     after mzf_process (18 * m) s =
       s\<lparr>currentPeriod := cp, mzf_hdr_idx := 128, mzf_cur_byte := cb,
         mzf_leader_done := ld, mzf_bit_mask := bm, mzf_have_byte := False, mzf_half := 0\<rparr>"
  using assms
proof (induction m arbitrary: s)
  case 0
  then have "unat (mzf_hdr_idx s) = unat (128 :: uint16_t)" by simp
  then have i: "mzf_hdr_idx s = 128" by (simp only: word_unat_eq_iff)
  have "s = s\<lparr>currentPeriod := currentPeriod s, mzf_hdr_idx := mzf_hdr_idx s,
         mzf_cur_byte := mzf_cur_byte s, mzf_leader_done := mzf_leader_done s,
         mzf_bit_mask := mzf_bit_mask s\<rparr>\<lparr>mzf_have_byte := False, mzf_half := 0\<rparr>"
    using settled_id [OF "0.prems"(3,4)] by simp
  then have "after mzf_process (18 * 0) s =
       s\<lparr>currentPeriod := currentPeriod s, mzf_hdr_idx := 128, mzf_cur_byte := mzf_cur_byte s,
         mzf_leader_done := mzf_leader_done s, mzf_bit_mask := mzf_bit_mask s,
         mzf_have_byte := False, mzf_half := 0\<rparr>"
    using i by simp
  moreover have "trace stage_period mzf_process (18 * 0) s =
       bytes_wave (mzf_stage s) (drop (unat (mzf_hdr_idx s)) (take 128 (mzf_hdr s)))"
    using i by (simp add: bytes_wave_Nil)
  ultimately show ?case by blast
next
  case (Suc m)
  from Suc.prems(5) have lt: "unat (mzf_hdr_idx s) < 128" by simp
  let ?b = "mzf_hdr s ! unat (mzf_hdr_idx s)"
  let ?s1 = "s\<lparr>mzf_cur_byte := ?b, mzf_hdr_idx := mzf_hdr_idx s + 1, mzf_have_byte := True\<rparr>"
  note ld = hdr_load [OF Suc.prems(2) lt]
  let ?s' = "?s1\<lparr>currentPeriod := (if bit (mzf_cur_byte ?s1) 0 then 494 else 264),
               mzf_half := 0, mzf_leader_done := True, mzf_bit_mask := 0,
               mzf_have_byte := False\<rparr>"
  have tr: "trace stage_period mzf_process 18 s = map (Pair (mzf_stage s)) (byte_wave ?b)"
    using byte_trace [OF Suc.prems(1,3,4) ld(1)] by simp
  have af: "after mzf_process 18 s = ?s'"
    by (rule byte_after [OF Suc.prems(1,3,4) ld(1)])
  obtain cb cp ld' bm where
    ih: "trace stage_period mzf_process (18 * m) ?s' =
       bytes_wave (mzf_stage ?s') (drop (unat (mzf_hdr_idx ?s')) (take 128 (mzf_hdr ?s')))"
      "after mzf_process (18 * m) ?s' =
       ?s'\<lparr>currentPeriod := cp, mzf_hdr_idx := 128, mzf_cur_byte := cb,
         mzf_leader_done := ld', mzf_bit_mask := bm, mzf_have_byte := False, mzf_half := 0\<rparr>"
    using Suc.IH [of ?s'] Suc.prems ld(2) by auto
  have n: "18 * Suc m = 18 + 18 * m" by simp
  have dr: "drop (unat (mzf_hdr_idx s)) (take 128 (mzf_hdr s)) =
      ?b # drop (Suc (unat (mzf_hdr_idx s))) (take 128 (mzf_hdr s))"
    using lt Suc.prems(6) by (simp add: Cons_nth_drop_Suc [symmetric])
  have "trace stage_period mzf_process (18 * Suc m) s =
       bytes_wave (mzf_stage s) (drop (unat (mzf_hdr_idx s)) (take 128 (mzf_hdr s)))"
    unfolding n trace_add af tr dr bytes_wave_Cons using ih(1) by (simp add: ld(2))
  moreover have "after mzf_process (18 * Suc m) s =
       s\<lparr>currentPeriod := cp, mzf_hdr_idx := 128, mzf_cur_byte := cb,
         mzf_leader_done := ld', mzf_bit_mask := bm, mzf_have_byte := False, mzf_half := 0\<rparr>"
    unfolding n after_add af using ih(2) by simp
  ultimately show ?case by blast
qed

lemma bytes_finish:
  assumes step: "\<And>t. mzf_stage t = X \<Longrightarrow> mzf_process t = mzf_bytes_stage n k t"
    and kp: "\<And>t. currentPeriod (k t) = currentPeriod t"
    and u: "mzf_stage u = X" "\<not> mzf_have_byte u" "mzf_load_next_byte u = (False, u)"
  shows "trace stage_period mzf_process 1 u = [(X, 0)]"
    and "after mzf_process 1 u = k (u\<lparr>currentPeriod := 0\<rparr>)"
proof -
  have p: "mzf_process u = k (u\<lparr>currentPeriod := 0\<rparr>)"
    using step [OF u(1)] bytes_stage_end [OF u(2,3)] by simp
  show "trace stage_period mzf_process 1 u = [(X, 0)]"
    by (simp add: p kp stage_period_def u(1))
  show "after mzf_process 1 u = k (u\<lparr>currentPeriod := 0\<rparr>)"
    by (simp add: p)
qed

lemma chk_load:
  assumes "mzf_src s = CHK"
  shows "mzf_chk_byte_idx s = 0 \<Longrightarrow> mzf_load_next_byte s =
     (True, s\<lparr>mzf_cur_byte :=
                 ucast (drop_bit 8 (if mzf_stage s = CHKH1 \<or> mzf_stage s = CHKH2
                                    then mzf_hdr_cksum s else mzf_file_cksum s)),
               mzf_have_byte := True, mzf_chk_byte_idx := 1\<rparr>)"
    and "mzf_chk_byte_idx s = 1 \<Longrightarrow> mzf_load_next_byte s =
     (True, s\<lparr>mzf_cur_byte :=
                 ucast ((if mzf_stage s = CHKH1 \<or> mzf_stage s = CHKH2
                         then mzf_hdr_cksum s else mzf_file_cksum s) AND 0xFF),
               mzf_have_byte := True, mzf_chk_byte_idx := 2\<rparr>)"
    and "mzf_chk_byte_idx s = 2 \<Longrightarrow> mzf_load_next_byte s = (False, s)"
  using assms by (simp_all add: mzf_load_next_byte_def Let_def word_le_nat_alt)

lemma chk_bytes:
  assumes "is_bytes_stage (mzf_stage s)" "mzf_src s = CHK" "\<not> mzf_have_byte s"
    "mzf_half s = 0" "mzf_chk_byte_idx s = 0"
    and v: "v = (if mzf_stage s = CHKH1 \<or> mzf_stage s = CHKH2
                 then mzf_hdr_cksum s else mzf_file_cksum s)"
  shows "\<exists>cp.
     trace stage_period mzf_process 36 s =
       bytes_wave (mzf_stage s) [ucast (drop_bit 8 v), ucast (v AND 0xFF)] \<and>
     after mzf_process 36 s =
       s\<lparr>currentPeriod := cp, mzf_cur_byte := ucast (v AND 0xFF), mzf_leader_done := True,
         mzf_bit_mask := 0, mzf_chk_byte_idx := 2, mzf_have_byte := False, mzf_half := 0\<rparr>"
proof -
  let ?hi = "ucast (drop_bit 8 v) :: byte" and ?lo = "ucast (v AND 0xFF) :: byte"
  let ?s1 = "s\<lparr>mzf_cur_byte := ?hi, mzf_have_byte := True, mzf_chk_byte_idx := 1\<rparr>"
  have l1: "mzf_load_next_byte s = (True, ?s1)"
    using chk_load(1) [OF assms(2,5)] v by simp
  let ?s2 = "?s1\<lparr>currentPeriod := (if bit (mzf_cur_byte ?s1) 0 then 494 else 264),
               mzf_half := 0, mzf_leader_done := True, mzf_bit_mask := 0,
               mzf_have_byte := False\<rparr>"
  have t1: "trace stage_period mzf_process 18 s = map (Pair (mzf_stage s)) (byte_wave ?hi)"
    using byte_trace [OF assms(1,3,4) l1] by simp
  have a1: "after mzf_process 18 s = ?s2" by (rule byte_after [OF assms(1,3,4) l1])
  let ?s3 = "?s2\<lparr>mzf_cur_byte := ?lo, mzf_have_byte := True, mzf_chk_byte_idx := 2\<rparr>"
  have l2: "mzf_load_next_byte ?s2 = (True, ?s3)"
    using chk_load(2) [of ?s2] assms(2) v by simp
  let ?s4 = "?s3\<lparr>currentPeriod := (if bit (mzf_cur_byte ?s3) 0 then 494 else 264),
               mzf_half := 0, mzf_leader_done := True, mzf_bit_mask := 0,
               mzf_have_byte := False\<rparr>"
  have t2: "trace stage_period mzf_process 18 ?s2 = map (Pair (mzf_stage s)) (byte_wave ?lo)"
    using byte_trace [OF _ _ _ l2] assms(1) by simp
  have a2: "after mzf_process 18 ?s2 = ?s4"
    using byte_after [OF _ _ _ l2] assms(1) by simp
  have n: "(36::nat) = 18 + 18" by simp
  have "trace stage_period mzf_process 36 s = bytes_wave (mzf_stage s) [?hi, ?lo]"
    unfolding n trace_add a1 t1 t2 by (simp add: bytes_wave_def)
  moreover have "after mzf_process 36 s =
       s\<lparr>currentPeriod := (if bit ?lo 0 then 494 else 264), mzf_cur_byte := ?lo,
         mzf_leader_done := True, mzf_bit_mask := 0, mzf_chk_byte_idx := 2,
         mzf_have_byte := False, mzf_half := 0\<rparr>"
    unfolding n after_add a1 a2 by simp
  ultimately show ?thesis by blast
qed

lemma file_load:
  assumes "mzf_src s = FILE"
  shows "mzf_file_left s = 0 \<Longrightarrow> mzf_load_next_byte s = (False, s)"
    and "mzf_file_left s \<noteq> 0 \<Longrightarrow> \<not> fst (ReadByte s) \<Longrightarrow> mzf_load_next_byte s = (False, s)"
    and "mzf_file_left s \<noteq> 0 \<Longrightarrow> fst (ReadByte s) \<Longrightarrow> mzf_load_next_byte s =
       (True, s\<lparr>bytesRead := bytesRead s + 1,
                 outByte := contents (entry s) ! unat (bytesRead s),
                 mzf_file_cksum :=
                   mzf_cksum_add (mzf_file_cksum s) (contents (entry s) ! unat (bytesRead s)),
                 mzf_file_left := mzf_file_left s - 1,
                 mzf_cur_byte := contents (entry s) ! unat (bytesRead s),
                 mzf_have_byte := True\<rparr>)"
  using assms
  by (simp_all add: mzf_load_next_byte_def ReadByte_def Let_def split: if_splits)

lemma read_byte_ok:
  "fst (ReadByte g) \<longleftrightarrow>
     \<not> read_fails (entry g) \<and> unat (bytesRead g) < length (contents (entry g))"
  by (simp add: ReadByte_def)

lemma file_bytes:
  assumes "is_bytes_stage (mzf_stage s)" "mzf_src s = FILE" "\<not> mzf_have_byte s"
    "mzf_half s = 0" "unat (mzf_file_left s) = m" "\<not> read_fails (entry s)"
    "unat (bytesRead s) + m < 2 ^ 32"
    and bs: "bs = take m (drop (unat (bytesRead s)) (contents (entry s)))"
  shows "\<exists>u cp ob cb ld bm.
     trace stage_period mzf_process (18 * length bs) s = bytes_wave (mzf_stage s) bs \<and>
     after mzf_process (18 * length bs) s = u \<and>
     u = s\<lparr>currentPeriod := cp, bytesRead := bytesRead s + of_nat (length bs), outByte := ob,
           mzf_file_cksum := mzf_file_cksum s + of_nat (sum_list (map bits_set bs)),
           mzf_file_left := mzf_file_left s - of_nat (length bs), mzf_cur_byte := cb,
           mzf_leader_done := ld, mzf_bit_mask := bm, mzf_have_byte := False,
           mzf_half := 0\<rparr> \<and>
     mzf_load_next_byte u = (False, u)"
  using assms
proof (induction m arbitrary: s bs)
  case 0
  then have z: "mzf_file_left s = 0" by (simp add: unat_eq_0)
  from "0.prems"(8) have e: "bs = []" by simp
  have id: "s = s\<lparr>currentPeriod := currentPeriod s, bytesRead := bytesRead s,
         outByte := outByte s, mzf_file_cksum := mzf_file_cksum s,
         mzf_file_left := mzf_file_left s, mzf_cur_byte := mzf_cur_byte s,
         mzf_leader_done := mzf_leader_done s,
         mzf_bit_mask := mzf_bit_mask s\<rparr>\<lparr>mzf_have_byte := False, mzf_half := 0\<rparr>"
    using settled_id [OF "0.prems"(3,4)] by simp
  have "trace stage_period mzf_process (18 * length bs) s = bytes_wave (mzf_stage s) bs \<and>
     after mzf_process (18 * length bs) s = s \<and>
     s = s\<lparr>currentPeriod := currentPeriod s, bytesRead := bytesRead s + of_nat (length bs),
         outByte := outByte s,
         mzf_file_cksum := mzf_file_cksum s + of_nat (sum_list (map bits_set bs)),
         mzf_file_left := mzf_file_left s - of_nat (length bs), mzf_cur_byte := mzf_cur_byte s,
         mzf_leader_done := mzf_leader_done s,
         mzf_bit_mask := mzf_bit_mask s, mzf_have_byte := False, mzf_half := 0\<rparr> \<and>
     mzf_load_next_byte s = (False, s)"
    using id file_load(1) [OF "0.prems"(2) z] by (simp add: bytes_wave_Nil e)
  then show ?case by blast
next
  case (Suc m)
  from word_pred_facts [OF Suc.prems(5)]
  have u: "unat (mzf_file_left s - 1) = m" by simp
  from Suc.prems(5) have nz: "mzf_file_left s \<noteq> 0"
    by (auto simp: unat_eq_0 [symmetric] simp del: unat_eq_0)
  have id: "s = s\<lparr>currentPeriod := currentPeriod s, bytesRead := bytesRead s,
         outByte := outByte s, mzf_file_cksum := mzf_file_cksum s,
         mzf_file_left := mzf_file_left s, mzf_cur_byte := mzf_cur_byte s,
         mzf_leader_done := mzf_leader_done s,
         mzf_bit_mask := mzf_bit_mask s\<rparr>\<lparr>mzf_have_byte := False, mzf_half := 0\<rparr>"
    using settled_id [OF Suc.prems(3,4)] by simp
  show ?case
  proof (cases "fst (ReadByte s)")
    case False
    with Suc.prems(6) have "length (contents (entry s)) \<le> unat (bytesRead s)"
      by (simp add: read_byte_ok)
    with Suc.prems(8) have e: "bs = []" by simp
    have "trace stage_period mzf_process (18 * length bs) s = bytes_wave (mzf_stage s) bs \<and>
     after mzf_process (18 * length bs) s = s \<and>
     s = s\<lparr>currentPeriod := currentPeriod s, bytesRead := bytesRead s + of_nat (length bs),
         outByte := outByte s,
         mzf_file_cksum := mzf_file_cksum s + of_nat (sum_list (map bits_set bs)),
         mzf_file_left := mzf_file_left s - of_nat (length bs), mzf_cur_byte := mzf_cur_byte s,
         mzf_leader_done := mzf_leader_done s,
         mzf_bit_mask := mzf_bit_mask s, mzf_have_byte := False, mzf_half := 0\<rparr> \<and>
     mzf_load_next_byte s = (False, s)"
      using id file_load(2) [OF Suc.prems(2) nz False] by (simp add: bytes_wave_Nil e)
    then show ?thesis by blast
  next
    case True
    then have lt: "unat (bytesRead s) < length (contents (entry s))"
      by (simp add: read_byte_ok)
    let ?b = "contents (entry s) ! unat (bytesRead s)"
    let ?bs' = "take m (drop (Suc (unat (bytesRead s))) (contents (entry s)))"
    have bs: "bs = ?b # ?bs'"
      using Suc.prems(8) lt by (simp add: Cons_nth_drop_Suc [symmetric])
    from Suc.prems(7) have "unat (bytesRead s) + unat (1 :: uint32_t) < 2 ^ LENGTH(32)" by simp
    then have br: "unat (bytesRead s + 1) = Suc (unat (bytesRead s))"
      by (simp add: unat_add_lem [THEN iffD1])
    let ?s1 = "s\<lparr>bytesRead := bytesRead s + 1, outByte := ?b,
                 mzf_file_cksum := mzf_cksum_add (mzf_file_cksum s) ?b,
                 mzf_file_left := mzf_file_left s - 1,
                 mzf_cur_byte := ?b, mzf_have_byte := True\<rparr>"
    note ld = file_load(3) [OF Suc.prems(2) nz True]
    let ?s' = "?s1\<lparr>currentPeriod := (if bit (mzf_cur_byte ?s1) 0 then 494 else 264),
               mzf_half := 0, mzf_leader_done := True, mzf_bit_mask := 0,
               mzf_have_byte := False\<rparr>"
    have tr: "trace stage_period mzf_process 18 s = map (Pair (mzf_stage s)) (byte_wave ?b)"
      using byte_trace [OF Suc.prems(1,3,4) ld] by simp
    have af: "after mzf_process 18 s = ?s'"
      by (rule byte_after [OF Suc.prems(1,3,4) ld])
    obtain u' cp ob cb ld' bm where
      ih: "trace stage_period mzf_process (18 * length ?bs') ?s' = bytes_wave (mzf_stage ?s') ?bs'"
        "after mzf_process (18 * length ?bs') ?s' = u'"
        "u' = ?s'\<lparr>currentPeriod := cp, bytesRead := bytesRead ?s' + of_nat (length ?bs'),
           outByte := ob,
           mzf_file_cksum := mzf_file_cksum ?s' + of_nat (sum_list (map bits_set ?bs')),
           mzf_file_left := mzf_file_left ?s' - of_nat (length ?bs'), mzf_cur_byte := cb,
           mzf_leader_done := ld', mzf_bit_mask := bm, mzf_have_byte := False,
           mzf_half := 0\<rparr>"
        "mzf_load_next_byte u' = (False, u')"
      using Suc.IH [of ?s' ?bs'] Suc.prems(1,2,6,7) u br by auto
    have n: "18 * length (?b # ?bs') = 18 + 18 * length ?bs'" by simp
    have "trace stage_period mzf_process (18 * length bs) s = bytes_wave (mzf_stage s) bs"
      unfolding bs n trace_add af tr bytes_wave_Cons using ih(1) by simp
    moreover have "after mzf_process (18 * length bs) s = u'"
      unfolding bs n after_add af by (rule ih(2))
    moreover have "u' = s\<lparr>currentPeriod := cp,
           bytesRead := bytesRead s + of_nat (length bs), outByte := ob,
           mzf_file_cksum := mzf_file_cksum s + of_nat (sum_list (map bits_set bs)),
           mzf_file_left := mzf_file_left s - of_nat (length bs), mzf_cur_byte := cb,
           mzf_leader_done := ld', mzf_bit_mask := bm, mzf_have_byte := False,
           mzf_half := 0\<rparr>"
      unfolding bs using ih(3) by (simp add: cksum_add_unat algebra_simps)
    ultimately show ?thesis using ih(4) by blast
  qed
qed

subsection \<open>Whole byte stages, with the tick that ends them\<close>

lemma hdr_phase:
  assumes step: "\<And>t. mzf_stage t = X \<Longrightarrow> mzf_process t =
      mzf_bytes_stage 128 (\<lambda>t. mzf_next_stage Y (mzf_reset_byte_writer_for_src CHK t)) t"
    and s: "mzf_stage s = X" "is_bytes_stage X" "mzf_src s = HDR" "\<not> mzf_have_byte s"
      "mzf_half s = 0" "mzf_hdr_idx s = 0" "128 \<le> length (mzf_hdr s)"
  shows "\<exists>cb.
     trace stage_period mzf_process 2305 s = bytes_wave X (take 128 (mzf_hdr s)) @ [(X, 0)] \<and>
     after mzf_process 2305 s =
       s\<lparr>currentPeriod := 0, mzf_stage := Y, mzf_src := CHK, mzf_hdr_idx := 128,
         mzf_cur_byte := cb, mzf_have_byte := False, mzf_leader_done := False,
         mzf_bit_mask := 0x80, mzf_chk_byte_idx := 0, mzf_half := 0\<rparr>"
proof -
  obtain cb cp ld bm where
    b: "trace stage_period mzf_process (18 * 128) s =
       bytes_wave (mzf_stage s) (drop (unat (mzf_hdr_idx s)) (take 128 (mzf_hdr s)))"
      "after mzf_process (18 * 128) s =
       s\<lparr>currentPeriod := cp, mzf_hdr_idx := 128, mzf_cur_byte := cb,
         mzf_leader_done := ld, mzf_bit_mask := bm, mzf_have_byte := False, mzf_half := 0\<rparr>"
    using hdr_bytes [of s 128] s by auto
  let ?u = "s\<lparr>currentPeriod := cp, mzf_hdr_idx := 128, mzf_cur_byte := cb,
         mzf_leader_done := ld, mzf_bit_mask := bm, mzf_have_byte := False, mzf_half := 0\<rparr>"
  have lf: "mzf_load_next_byte ?u = (False, ?u)"
    using s(3) by (simp add: mzf_load_next_byte_def)
  have f: "trace stage_period mzf_process 1 ?u = [(X, 0)]"
    "after mzf_process 1 ?u =
       mzf_next_stage Y (mzf_reset_byte_writer_for_src CHK (?u\<lparr>currentPeriod := 0\<rparr>))"
    using bytes_finish [OF step _ _ _ lf] s(1)
    by (simp_all add: mzf_next_stage_def mzf_reset_byte_writer_for_src_def)
  have n: "(2305::nat) = 18 * 128 + 1" by simp
  have "trace stage_period mzf_process 2305 s = bytes_wave X (take 128 (mzf_hdr s)) @ [(X, 0)]"
    unfolding n trace_add b f using s(1,6) by simp
  moreover have "after mzf_process 2305 s =
       s\<lparr>currentPeriod := 0, mzf_stage := Y, mzf_src := CHK, mzf_hdr_idx := 128,
         mzf_cur_byte := cb, mzf_have_byte := False, mzf_leader_done := False,
         mzf_bit_mask := 0x80, mzf_chk_byte_idx := 0, mzf_half := 0\<rparr>"
    unfolding n after_add b f
    by (simp add: mzf_next_stage_def mzf_reset_byte_writer_for_src_def)
  ultimately show ?thesis by blast
qed

lemma chk_phase:
  assumes step: "\<And>t. mzf_stage t = X \<Longrightarrow> mzf_process t = mzf_bytes_stage 2 k t"
    and kp: "\<And>t. currentPeriod (k t) = currentPeriod t"
    and s: "mzf_stage s = X" "is_bytes_stage X" "mzf_src s = CHK" "\<not> mzf_have_byte s"
      "mzf_half s = 0" "mzf_chk_byte_idx s = 0"
    and v: "v = (if X = CHKH1 \<or> X = CHKH2 then mzf_hdr_cksum s else mzf_file_cksum s)"
  shows
    "trace stage_period mzf_process 37 s =
       bytes_wave X [ucast (drop_bit 8 v), ucast (v AND 0xFF)] @ [(X, 0)] \<and>
     after mzf_process 37 s =
       k (s\<lparr>currentPeriod := 0, mzf_cur_byte := ucast (v AND 0xFF), mzf_leader_done := True,
            mzf_bit_mask := 0, mzf_chk_byte_idx := 2, mzf_have_byte := False,
            mzf_half := 0\<rparr>)"
proof -
  obtain cp where
    b: "trace stage_period mzf_process 36 s =
       bytes_wave (mzf_stage s) [ucast (drop_bit 8 v), ucast (v AND 0xFF)]"
     "after mzf_process 36 s =
       s\<lparr>currentPeriod := cp, mzf_cur_byte := ucast (v AND 0xFF), mzf_leader_done := True,
         mzf_bit_mask := 0, mzf_chk_byte_idx := 2, mzf_have_byte := False, mzf_half := 0\<rparr>"
    using chk_bytes [of s v] s v by auto
  let ?u = "s\<lparr>currentPeriod := cp, mzf_cur_byte := ucast (v AND 0xFF), mzf_leader_done := True,
         mzf_bit_mask := 0, mzf_chk_byte_idx := 2, mzf_have_byte := False, mzf_half := 0\<rparr>"
  have lf: "mzf_load_next_byte ?u = (False, ?u)"
    using chk_load(3) [of ?u] s(3) by simp
  have f: "trace stage_period mzf_process 1 ?u = [(X, 0)]"
    "after mzf_process 1 ?u = k (?u\<lparr>currentPeriod := 0\<rparr>)"
    using bytes_finish [OF step kp _ _ lf] s(1) by simp_all
  have e: "?u\<lparr>currentPeriod := 0\<rparr> =
       s\<lparr>currentPeriod := 0, mzf_cur_byte := ucast (v AND 0xFF), mzf_leader_done := True,
         mzf_bit_mask := 0, mzf_chk_byte_idx := 2, mzf_have_byte := False, mzf_half := 0\<rparr>"
    by simp
  have n: "(37::nat) = 36 + 1" by simp
  show ?thesis
    unfolding n trace_add after_add b f e using s(1) by simp
qed

lemma file_phase:
  assumes s: "mzf_stage s = FILE1" "mzf_src s = FILE" "\<not> mzf_have_byte s"
      "mzf_half s = 0" "\<not> read_fails (entry s)"
      "unat (bytesRead s) + unat (mzf_file_left s) < 2 ^ 32"
    and bs: "bs = take (unat (mzf_file_left s)) (drop (unat (bytesRead s)) (contents (entry s)))"
  shows "\<exists>ob cb.
     trace stage_period mzf_process (18 * length bs + 1) s = bytes_wave FILE1 bs @ [(FILE1, 0)] \<and>
     after mzf_process (18 * length bs + 1) s =
       s\<lparr>currentPeriod := 0, bytesRead := bytesRead s + of_nat (length bs), outByte := ob,
         mzf_stage := CHKF1,
         mzf_file_cksum := mzf_file_cksum s + of_nat (sum_list (map bits_set bs)),
         mzf_file_left := mzf_file_left s - of_nat (length bs), mzf_src := CHK,
         mzf_cur_byte := cb, mzf_have_byte := False, mzf_leader_done := False,
         mzf_bit_mask := 0x80, mzf_chk_byte_idx := 0, mzf_half := 0\<rparr>"
proof -
  obtain u cp ob cb ld bm where
    b: "trace stage_period mzf_process (18 * length bs) s = bytes_wave (mzf_stage s) bs"
      "after mzf_process (18 * length bs) s = u"
      "u = s\<lparr>currentPeriod := cp, bytesRead := bytesRead s + of_nat (length bs), outByte := ob,
           mzf_file_cksum := mzf_file_cksum s + of_nat (sum_list (map bits_set bs)),
           mzf_file_left := mzf_file_left s - of_nat (length bs), mzf_cur_byte := cb,
           mzf_leader_done := ld, mzf_bit_mask := bm, mzf_have_byte := False,
           mzf_half := 0\<rparr>"
      "mzf_load_next_byte u = (False, u)"
    using file_bytes [of s "unat (mzf_file_left s)" bs] s bs by auto
  have us: "mzf_stage u = FILE1" "\<not> mzf_have_byte u" using b(3) s(1) by simp_all
  have f: "trace stage_period mzf_process 1 u = [(FILE1, 0)]"
    "after mzf_process 1 u =
       mzf_next_stage CHKF1 (mzf_reset_byte_writer_for_src CHK (u\<lparr>currentPeriod := 0\<rparr>))"
    using bytes_finish [OF process_at_bytes(5) _ us b(4)]
    by (simp_all add: mzf_next_stage_def mzf_reset_byte_writer_for_src_def)
  have "trace stage_period mzf_process (18 * length bs + 1) s =
      bytes_wave FILE1 bs @ [(FILE1, 0)]"
    unfolding trace_add b(1,2) f using s(1) by simp
  moreover have "after mzf_process (18 * length bs + 1) s =
       s\<lparr>currentPeriod := 0, bytesRead := bytesRead s + of_nat (length bs), outByte := ob,
         mzf_stage := CHKF1,
         mzf_file_cksum := mzf_file_cksum s + of_nat (sum_list (map bits_set bs)),
         mzf_file_left := mzf_file_left s - of_nat (length bs), mzf_src := CHK,
         mzf_cur_byte := cb, mzf_have_byte := False, mzf_leader_done := False,
         mzf_bit_mask := 0x80, mzf_chk_byte_idx := 0, mzf_half := 0\<rparr>"
    unfolding after_add b(2) f unfolding b(3)
    by (simp add: mzf_next_stage_def mzf_reset_byte_writer_for_src_def)
  ultimately show ?thesis by blast
qed

lemma done_phase:
  assumes "mzf_stage s = MZF_STAGE.DONE"
  shows "trace stage_period mzf_process n s = replicate n (MZF_STAGE.DONE, 0) \<and>
         mzf_stage (after mzf_process n s) = MZF_STAGE.DONE"
  using assms
proof (induction n arbitrary: s)
  case 0
  then show ?case by simp
next
  case (Suc n)
  have p: "mzf_process s =
      s\<lparr>currentID := IDEOF, currentTask := PROCESSID, count_r := 255, currentPeriod := 0\<rparr>"
    using Suc.prems by (simp add: mzf_process_def)
  have "mzf_stage (mzf_process s) = MZF_STAGE.DONE" using Suc.prems by (simp add: p)
  from Suc.IH [OF this] show ?case
    using Suc.prems by (simp add: stage_period_def p)
qed

section \<open>Failure of the header read\<close>

text \<open>
  C8. When the seek to offset 0 fails, or the read of the 128-byte header returns anything
  but 128 (a device error or a short read), \<open>mzf_init\<close> writes only the stage (DONE),
  the half flag, the end-of-file block id and whatever the read left in the header
  buffer; no counter, length, checksum or byte-writer variable of a playback phase is
  set. Every later tick finds the machine in DONE and hands out the zero period, and no
  tick touches the storage again.
\<close>

theorem mzf_init_failure_ends_session:
  assumes "\<not> seekSet (entry s) 0 \<or> fst (read_block (entry s) (mzf_hdr s) 128) \<noteq> 128"
  shows "mzf_init s =
           s\<lparr>currentID := IDEOF, mzf_stage := MZF_STAGE.DONE,
             mzf_hdr := (if seekSet (entry s) 0
                         then snd (read_block (entry s) (mzf_hdr s) 128) else mzf_hdr s),
             mzf_half := 0\<rparr> \<and>
         mzf_stage (after mzf_process n (mzf_init s)) = MZF_STAGE.DONE \<and>
         trace stage_period mzf_process n (mzf_init s) = replicate n (MZF_STAGE.DONE, 0) \<and>
         bytesRead (after mzf_process n (mzf_init s)) = bytesRead s"
proof -
  have i: "mzf_init s =
           s\<lparr>currentID := IDEOF, mzf_stage := MZF_STAGE.DONE,
             mzf_hdr := (if seekSet (entry s) 0
                         then snd (read_block (entry s) (mzf_hdr s) 128) else mzf_hdr s),
             mzf_half := 0\<rparr>"
    using assms by (auto simp: mzf_init_def Let_def split: prod.split)
  then have d: "mzf_stage (mzf_init s) = MZF_STAGE.DONE" by simp
  have b: "mzf_stage t = MZF_STAGE.DONE \<Longrightarrow>
      bytesRead (after mzf_process n t) = bytesRead t" for t
  proof (induction n arbitrary: t)
    case 0
    then show ?case by simp
  next
    case (Suc n)
    have "mzf_process t =
      t\<lparr>currentID := IDEOF, currentTask := PROCESSID, count_r := 255, currentPeriod := 0\<rparr>"
      using Suc.prems by (simp add: mzf_process_def)
    with Suc.IH [of "mzf_process t"] Suc.prems show ?case by simp
  qed
  have "bytesRead (after mzf_process n (mzf_init s)) = bytesRead (mzf_init s)"
    by (rule b [OF d])
  also have "\<dots> = bytesRead s" by (simp add: i)
  finally show ?thesis using i done_phase [OF d, of n] by simp
qed

theorem mzf_init_failure_ends_session_witness:
  "fst (read_block (entry (mzf_power_on (tape (replicate 100 7) 0)))
          (mzf_hdr (mzf_power_on (tape (replicate 100 7) 0))) 128) = 100 \<and>
   mzf_init (mzf_power_on (tape (replicate 100 7) 0)) =
     (mzf_power_on (tape (replicate 100 7) 0))
       \<lparr>currentID := IDEOF, mzf_stage := MZF_STAGE.DONE,
        mzf_hdr := (if seekSet (entry (mzf_power_on (tape (replicate 100 7) 0))) 0
                    then snd (read_block (entry (mzf_power_on (tape (replicate 100 7) 0)))
                           (mzf_hdr (mzf_power_on (tape (replicate 100 7) 0))) 128)
                    else mzf_hdr (mzf_power_on (tape (replicate 100 7) 0))),
        mzf_half := 0\<rparr> \<and>
   mzf_stage (after mzf_process 5 (mzf_init (mzf_power_on (tape (replicate 100 7) 0)))) =
     MZF_STAGE.DONE \<and>
   trace stage_period mzf_process 5 (mzf_init (mzf_power_on (tape (replicate 100 7) 0))) =
     replicate 5 (MZF_STAGE.DONE, 0) \<and>
   bytesRead (after mzf_process 5 (mzf_init (mzf_power_on (tape (replicate 100 7) 0)))) =
     bytesRead (mzf_power_on (tape (replicate 100 7) 0))"
proof -
  let ?s = "mzf_power_on (tape (replicate 100 7) 0)"
  have r: "fst (read_block (entry ?s) (mzf_hdr ?s) 128) = 100"
    by (simp add: read_block_def mzf_power_on_def tape_def globals.extend_def Let_def)
  then have h: "\<not> seekSet (entry ?s) 0 \<or> fst (read_block (entry ?s) (mzf_hdr ?s) 128) \<noteq> 128"
    by simp
  from mzf_init_failure_ends_session [OF h, of 5] r show ?thesis by blast
qed

section \<open>Exhaustion of the file body\<close>

text \<open>
  C9. In the file-body stage, when \<open>ReadByte\<close> fails while \<open>mzf_file_left\<close> is still
  positive, the tick hands out the zero period and moves to the file-checksum stage
  CHKF1; the block id and the task are left as they are (the session goes on), and the
  state reached is the one the normal end of the body (\<open>mzf_file_left = 0\<close>) reaches,
  but for the count of bytes left.
\<close>

theorem file_exhaustion_completes_stage:
  assumes "mzf_stage s = FILE1" "mzf_src s = FILE" "\<not> mzf_have_byte s"
    "mzf_file_left s \<noteq> 0" "\<not> fst (ReadByte s)"
  shows "currentPeriod (mzf_process s) = 0 \<and>
         mzf_stage (mzf_process s) = CHKF1 \<and>
         currentID (mzf_process s) = currentID s \<and>
         currentTask (mzf_process s) = currentTask s \<and>
         mzf_process s =
           (mzf_process (s\<lparr>mzf_file_left := 0\<rparr>))\<lparr>mzf_file_left := mzf_file_left s\<rparr>"
proof -
  let ?k = "\<lambda>t. mzf_next_stage CHKF1 (mzf_reset_byte_writer_for_src CHK t)"
  have l: "mzf_load_next_byte s = (False, s)"
    by (rule file_load(2) [OF assms(2,4,5)])
  have p: "mzf_process s = ?k (s\<lparr>currentPeriod := 0\<rparr>)"
    using process_at_bytes(5) [OF assms(1)] bytes_stage_end [OF assms(3) l] by simp
  let ?z = "s\<lparr>mzf_file_left := 0\<rparr>"
  have lz: "mzf_load_next_byte ?z = (False, ?z)"
    using file_load(1) [of ?z] assms(2) by simp
  have pz: "mzf_process ?z = ?k (?z\<lparr>currentPeriod := 0\<rparr>)"
    using process_at_bytes(5) [of ?z] bytes_stage_end [OF _ lz] assms(1,3) by simp
  show ?thesis
    unfolding p pz by (simp add: mzf_next_stage_def mzf_reset_byte_writer_for_src_def)
qed

theorem file_exhaustion_completes_stage_witness:
  "mzf_stage ((mzf_power_on (tape short_image 0))
      \<lparr>bytesRead := 129, mzf_stage := FILE1, mzf_file_left := 2, mzf_src := FILE\<rparr>) = FILE1 \<and>
   mzf_file_left ((mzf_power_on (tape short_image 0))
      \<lparr>bytesRead := 129, mzf_stage := FILE1, mzf_file_left := 2, mzf_src := FILE\<rparr>) = 2 \<and>
   fst (ReadByte ((mzf_power_on (tape short_image 0))
      \<lparr>bytesRead := 129, mzf_stage := FILE1, mzf_file_left := 2, mzf_src := FILE\<rparr>)) = False \<and>
   currentPeriod (mzf_process ((mzf_power_on (tape short_image 0))
      \<lparr>bytesRead := 129, mzf_stage := FILE1, mzf_file_left := 2, mzf_src := FILE\<rparr>)) = 0 \<and>
   mzf_stage (mzf_process ((mzf_power_on (tape short_image 0))
      \<lparr>bytesRead := 129, mzf_stage := FILE1, mzf_file_left := 2, mzf_src := FILE\<rparr>)) = CHKF1 \<and>
   currentID (mzf_process ((mzf_power_on (tape short_image 0))
      \<lparr>bytesRead := 129, mzf_stage := FILE1, mzf_file_left := 2, mzf_src := FILE\<rparr>)) =
     OtherID 0"
proof -
  let ?s = "(mzf_power_on (tape short_image 0))
      \<lparr>bytesRead := 129, mzf_stage := FILE1, mzf_file_left := 2, mzf_src := FILE\<rparr>"
  have h: "mzf_stage ?s = FILE1" "mzf_src ?s = FILE" "\<not> mzf_have_byte ?s"
    "mzf_file_left ?s \<noteq> 0" "\<not> fst (ReadByte ?s)"
    by (simp_all add: mzf_power_on_def tape_def globals.extend_def ReadByte_def short_image_def)
  have v: "mzf_file_left ?s = 2" "currentID ?s = OtherID 0"
    by (simp_all add: mzf_power_on_def tape_def globals.extend_def)
  from file_exhaustion_completes_stage [OF h]
  have c: "currentPeriod (mzf_process ?s) = 0 \<and> mzf_stage (mzf_process ?s) = CHKF1 \<and>
           currentID (mzf_process ?s) = currentID ?s"
    by blast
  have f: "fst (ReadByte ?s) = False" using h(5) by simp
  show ?thesis using c h(1) v f by simp
qed

subsection \<open>A whole session\<close>

lemma length_pulses: "length (pulses X L n) = 2 * n"
  by (induction n) (simp_all add: pulses_def pulse_halves_def)

lemma length_byte_wave: "length (byte_wave b) = 18"
  by (simp add: byte_wave_def pulse_halves_def)

lemma length_bytes_wave: "length (bytes_wave X bs) = 18 * length bs"
  by (induction bs) (simp_all add: bytes_wave_def length_byte_wave)

lemma chain:
  assumes "trace obs f m s = w1" "after f m s = t" "trace obs f k t = w2" "after f k t = u"
  shows "trace obs f (m + k) s = w1 @ w2" "after f (m + k) s = u"
  using assms by (simp_all add: trace_add after_add)

lemma session:
  assumes s0: "mzf_stage s0 = LGAP1" "mzf_half s0 = 0" "mzf_pulses_left s0 = 22000"
      "128 \<le> length (mzf_hdr s0)" "\<not> read_fails (entry s0)"
    and body: "body = take (unat (mzf_file_len s0)) (drop 128 (contents (entry s0)))"
    and fck: "fck = of_nat (sum_list (map bits_set body))"
    and n: "n = 70966 + 18 * length body"
  shows "trace stage_period mzf_process n s0 =
           mzf_tape_wave (take 128 (mzf_hdr s0)) (mzf_hdr_cksum s0) body fck"
    and "mzf_stage (after mzf_process n s0) = MZF_STAGE.DONE"
    and "mzf_file_cksum (after mzf_process n s0) = fck"
    and "currentID (after mzf_process n s0) = currentID s0"
    and "mzf_stage (after mzf_process 46467 s0) = CHKH1 \<and>
         mzf_src (after mzf_process 46467 s0) = CHK \<and>
         \<not> mzf_have_byte (after mzf_process 46467 s0) \<and>
         mzf_half (after mzf_process 46467 s0) = 0 \<and>
         mzf_chk_byte_idx (after mzf_process 46467 s0) = 0 \<and>
         mzf_hdr_cksum (after mzf_process 46467 s0) = mzf_hdr_cksum s0"
    and "mzf_stage (after mzf_process 48846 s0) = SGAP \<and>
         mzf_half (after mzf_process 48846 s0) = 0 \<and>
         mzf_pulses_left (after mzf_process 48846 s0) = 11000"
proof -
  let ?hdr = "take 128 (mzf_hdr s0)" and ?hck = "mzf_hdr_cksum s0"
  \<comment> \<open>long gap and leader tapemark\<close>
  let ?a = "s0\<lparr>currentPeriod := 494, mzf_stage := HDR1, mzf_pulses_left := 0, mzf_tm_left := 0,
             mzf_src := HDR, mzf_hdr_idx := 0, mzf_have_byte := False,
             mzf_leader_done := False, mzf_bit_mask := 0x80, mzf_chk_byte_idx := 0,
             mzf_half := 0\<rparr>"
  note a = leader_phase [OF s0(1,2,3)]
  \<comment> \<open>first header copy\<close>
  obtain cb1 where
    b: "trace stage_period mzf_process 2305 ?a = bytes_wave HDR1 (take 128 (mzf_hdr ?a)) @ [(HDR1, 0)]"
      "after mzf_process 2305 ?a =
       ?a\<lparr>currentPeriod := 0, mzf_stage := CHKH1, mzf_src := CHK, mzf_hdr_idx := 128,
         mzf_cur_byte := cb1, mzf_have_byte := False, mzf_leader_done := False,
         mzf_bit_mask := 0x80, mzf_chk_byte_idx := 0, mzf_half := 0\<rparr>"
    using hdr_phase [OF process_at_bytes(1), where s = ?a] s0(4) by auto
  let ?b = "?a\<lparr>currentPeriod := 0, mzf_stage := CHKH1, mzf_src := CHK, mzf_hdr_idx := 128,
         mzf_cur_byte := cb1, mzf_have_byte := False, mzf_leader_done := False,
         mzf_bit_mask := 0x80, mzf_chk_byte_idx := 0, mzf_half := 0\<rparr>"
  \<comment> \<open>its checksum\<close>
  let ?c = "mzf_next_stage HDR2 (mzf_reset_byte_writer_for_src HDR
      (?b\<lparr>currentPeriod := 0, mzf_cur_byte := ucast (?hck AND 0xFF), mzf_leader_done := True,
            mzf_bit_mask := 0, mzf_chk_byte_idx := 2, mzf_have_byte := False,
            mzf_half := 0, mzf_hdr_idx := 0\<rparr>))"
  have c: "trace stage_period mzf_process 37 ?b = bytes_wave CHKH1 (cksum_bytes ?hck) @ [(CHKH1, 0)]"
    "after mzf_process 37 ?b = ?c"
    using chk_phase [OF process_at_bytes(2), where s = ?b and v = ?hck]
    by (simp_all add: mzf_next_stage_def mzf_reset_byte_writer_for_src_def cksum_bytes_def)
  \<comment> \<open>second header copy\<close>
  obtain cb2 where
    d: "trace stage_period mzf_process 2305 ?c = bytes_wave HDR2 (take 128 (mzf_hdr ?c)) @ [(HDR2, 0)]"
      "after mzf_process 2305 ?c =
       ?c\<lparr>currentPeriod := 0, mzf_stage := CHKH2, mzf_src := CHK, mzf_hdr_idx := 128,
         mzf_cur_byte := cb2, mzf_have_byte := False, mzf_leader_done := False,
         mzf_bit_mask := 0x80, mzf_chk_byte_idx := 0, mzf_half := 0\<rparr>"
    using hdr_phase [OF process_at_bytes(3), where s = ?c] s0(4)
    by (auto simp: mzf_next_stage_def mzf_reset_byte_writer_for_src_def)
  let ?d = "?c\<lparr>currentPeriod := 0, mzf_stage := CHKH2, mzf_src := CHK, mzf_hdr_idx := 128,
         mzf_cur_byte := cb2, mzf_have_byte := False, mzf_leader_done := False,
         mzf_bit_mask := 0x80, mzf_chk_byte_idx := 0, mzf_half := 0\<rparr>"
  \<comment> \<open>its checksum\<close>
  let ?e = "mzf_next_stage SGAP
      (?d\<lparr>currentPeriod := 0, mzf_cur_byte := ucast (?hck AND 0xFF), mzf_leader_done := True,
            mzf_bit_mask := 0, mzf_chk_byte_idx := 2, mzf_have_byte := False,
            mzf_half := 0, mzf_pulses_left := ucast MZF_SGAP_PULSES\<rparr>)"
  have e: "trace stage_period mzf_process 37 ?d = bytes_wave CHKH2 (cksum_bytes ?hck) @ [(CHKH2, 0)]"
    "after mzf_process 37 ?d = ?e"
    using chk_phase [OF process_at_bytes(4), where s = ?d and v = ?hck]
    by (simp_all add: mzf_next_stage_def mzf_reset_byte_writer_for_src_def cksum_bytes_def)
  \<comment> \<open>short gap and trailer tapemark\<close>
  let ?f = "?e\<lparr>currentPeriod := 494, bytesRead := 128, mzf_stage := FILE1,
             mzf_file_cksum := 0, mzf_pulses_left := 0, mzf_file_left := mzf_file_len ?e,
             mzf_tm_left := 0, mzf_src := FILE, mzf_have_byte := False,
             mzf_leader_done := False, mzf_bit_mask := 0x80, mzf_chk_byte_idx := 0,
             mzf_half := 0\<rparr>"
  have f: "trace stage_period mzf_process 22082 ?e =
           pulses SGAP False 11000 @ pulses STM_LONG True 20 @ pulses STM_SHORT False 20 @
           pulses STM_ENDLONG True 1"
     "after mzf_process 22082 ?e = ?f"
    using trailer_phase [where s = ?e] by (simp_all add: mzf_next_stage_def mzf_counts)
  \<comment> \<open>file body\<close>
  have fl: "unat (128 :: uint32_t) + unat (mzf_file_len s0) < 2 ^ 32"
    using unsigned_less [of "mzf_file_len s0", where 'a = nat] by simp
  obtain ob cb3 where
    g: "trace stage_period mzf_process (18 * length body + 1) ?f =
          bytes_wave FILE1 body @ [(FILE1, 0)]"
       "after mzf_process (18 * length body + 1) ?f =
       ?f\<lparr>currentPeriod := 0, bytesRead := bytesRead ?f + of_nat (length body), outByte := ob,
         mzf_stage := CHKF1,
         mzf_file_cksum := mzf_file_cksum ?f + of_nat (sum_list (map bits_set body)),
         mzf_file_left := mzf_file_left ?f - of_nat (length body), mzf_src := CHK,
         mzf_cur_byte := cb3, mzf_have_byte := False, mzf_leader_done := False,
         mzf_bit_mask := 0x80, mzf_chk_byte_idx := 0, mzf_half := 0\<rparr>"
    using file_phase [where s = ?f and bs = body] s0(5) body fl
    by (auto simp: mzf_next_stage_def mzf_reset_byte_writer_for_src_def)
  let ?g = "?f\<lparr>currentPeriod := 0, bytesRead := bytesRead ?f + of_nat (length body), outByte := ob,
         mzf_stage := CHKF1,
         mzf_file_cksum := mzf_file_cksum ?f + of_nat (sum_list (map bits_set body)),
         mzf_file_left := mzf_file_left ?f - of_nat (length body), mzf_src := CHK,
         mzf_cur_byte := cb3, mzf_have_byte := False, mzf_leader_done := False,
         mzf_bit_mask := 0x80, mzf_chk_byte_idx := 0, mzf_half := 0\<rparr>"
  \<comment> \<open>its checksum\<close>
  let ?h = "mzf_next_stage MZF_STAGE.DONE
      (?g\<lparr>currentPeriod := 0, mzf_cur_byte := ucast (fck AND 0xFF), mzf_leader_done := True,
            mzf_bit_mask := 0, mzf_chk_byte_idx := 2, mzf_have_byte := False,
            mzf_half := 0\<rparr>)"
  have h: "trace stage_period mzf_process 37 ?g = bytes_wave CHKF1 (cksum_bytes fck) @ [(CHKF1, 0)]"
    "after mzf_process 37 ?g = ?h"
    using chk_phase [OF process_at_bytes(6), where s = ?g and v = fck] fck
    by (simp_all add: mzf_next_stage_def mzf_reset_byte_writer_for_src_def cksum_bytes_def)
  note ab = chain [OF a b]
  note ac = chain [OF ab c]
  note ad = chain [OF ac d]
  note ae = chain [OF ad e]
  note af = chain [OF ae f]
  note ag = chain [OF af g]
  note ah = chain [OF ag h]
  have split: "n = 44162 + 2305 + 37 + 2305 + 37 + 22082 + (18 * length body + 1) + 37"
    using n by simp
  show "trace stage_period mzf_process n s0 =
           mzf_tape_wave (take 128 (mzf_hdr s0)) (mzf_hdr_cksum s0) body fck"
    unfolding split ah(1) mzf_tape_wave_def
    by (simp add: mzf_next_stage_def mzf_reset_byte_writer_for_src_def)
  have fin: "after mzf_process n s0 = ?h"
    unfolding split by (rule ah(2))
  show "mzf_stage (after mzf_process n s0) = MZF_STAGE.DONE"
    unfolding fin by (simp add: mzf_next_stage_def)
  show "mzf_file_cksum (after mzf_process n s0) = fck"
    unfolding fin by (simp add: mzf_next_stage_def mzf_reset_byte_writer_for_src_def fck)
  show "currentID (after mzf_process n s0) = currentID s0"
    unfolding fin by (simp add: mzf_next_stage_def mzf_reset_byte_writer_for_src_def)
  have n1: "(46467::nat) = 44162 + 2305" and n2: "(48846::nat) = 44162 + 2305 + 37 + 2305 + 37"
    by simp_all
  show "mzf_stage (after mzf_process 46467 s0) = CHKH1 \<and>
         mzf_src (after mzf_process 46467 s0) = CHK \<and>
         \<not> mzf_have_byte (after mzf_process 46467 s0) \<and>
         mzf_half (after mzf_process 46467 s0) = 0 \<and>
         mzf_chk_byte_idx (after mzf_process 46467 s0) = 0 \<and>
         mzf_hdr_cksum (after mzf_process 46467 s0) = mzf_hdr_cksum s0"
    unfolding n1 ab(2) by simp
  show "mzf_stage (after mzf_process 48846 s0) = SGAP \<and>
         mzf_half (after mzf_process 48846 s0) = 0 \<and>
         mzf_pulses_left (after mzf_process 48846 s0) = 11000"
    unfolding n2 ae(2) by (simp add: mzf_next_stage_def mzf_counts)
qed

lemma remdups_adj_same: "remdups_adj (x # replicate n x @ ys) = remdups_adj (x # ys)"
  by (induction n) simp_all

lemma remdups_adj_block: "remdups_adj (replicate n x @ x # ys) = remdups_adj (x # ys)"
  by (simp add: replicate_app_Cons_same remdups_adj_same)

lemma remdups_adj_block': "0 < n \<Longrightarrow> remdups_adj (replicate n x @ ys) = remdups_adj (x # ys)"
  by (cases n) (simp_all add: remdups_adj_same)

lemma remdups_adj_next:
  "x \<noteq> y \<Longrightarrow> 0 < n \<Longrightarrow> remdups_adj (x # replicate n y @ ys) = x # remdups_adj (y # ys)"
  by (cases n) (simp_all add: remdups_adj_same)

lemma remdups_adj_next':
  "x \<noteq> y \<Longrightarrow> remdups_adj (x # replicate n y @ y # ys) = x # remdups_adj (y # ys)"
  by (simp add: replicate_app_Cons_same remdups_adj_same)

lemma map_fst_pulses: "map fst (pulses X L n) = replicate (2 * n) X"
  by (induction n) (simp_all add: pulses_def pulse_halves_def)

lemma map_fst_bytes_wave: "map fst (bytes_wave X bs) = replicate (18 * length bs) X"
proof (induction bs)
  case Nil
  then show ?case by (simp add: bytes_wave_def)
next
  case (Cons b bs)
  have "map fst (map (Pair X) (byte_wave b)) = replicate 18 X"
    by (simp add: byte_wave_def pulse_halves_def numeral_eq_Suc)
  with Cons show ?case
    by (simp add: bytes_wave_Cons replicate_add [symmetric] del: replicate_add)
qed

lemma tape_wave_stages:
  assumes "length hdr = 128"
  shows "remdups_adj (map fst (mzf_tape_wave hdr hck body fck @ replicate (Suc n) (MZF_STAGE.DONE, 0))) =
     [LGAP1, LTM_LONG, LTM_SHORT, LTM_ENDLONG, HDR1, CHKH1, HDR2, CHKH2,
      SGAP, STM_LONG, STM_SHORT, STM_ENDLONG, FILE1, CHKF1, MZF_STAGE.DONE]"
proof -
  have d: "map fst (replicate (Suc n) (MZF_STAGE.DONE, 0 :: uint16_t)) =
      replicate n MZF_STAGE.DONE @ [MZF_STAGE.DONE]"
    by (simp add: replicate_append_same)
  show ?thesis
    unfolding mzf_tape_wave_def map_append map_fst_pulses map_fst_bytes_wave d
    using assms
    by (simp add: remdups_adj_block remdups_adj_block' remdups_adj_next remdups_adj_next'
        remdups_adj_same cksum_bytes_def del: replicate_Suc)
qed

lemma init_success:
  assumes "seekSet (entry s) 0" "fst (read_block (entry s) (mzf_hdr s) 128) = 128"
  shows "mzf_stage (mzf_init s) = LGAP1" "mzf_half (mzf_init s) = 0"
    "mzf_pulses_left (mzf_init s) = 22000" "128 \<le> length (mzf_hdr (mzf_init s))"
    "\<not> read_fails (entry (mzf_init s))" "entry (mzf_init s) = entry s"
    "take 128 (mzf_hdr (mzf_init s)) = take 128 (contents (entry s))"
    "length (take 128 (contents (entry s))) = 128"
    "mzf_hdr_cksum (mzf_init s) =
       of_nat (sum_list (map bits_set (take 128 (contents (entry s)))))"
    "mzf_file_len (mzf_init s) =
       ucast (contents (entry s) ! 18) OR push_bit 8 (ucast (contents (entry s) ! 19))"
    "currentID (mzf_init s) = MZF"
proof -
  from assms have ok: "\<not> seek_fails (entry s)" "\<not> read_fails (entry s)"
    "128 \<le> length (contents (entry s))"
    by (simp_all add: seekSet_def read_block_result)
  note i = mzf_init_ok [OF ok]
  show "mzf_stage (mzf_init s) = LGAP1" "mzf_half (mzf_init s) = 0"
    "mzf_pulses_left (mzf_init s) = 22000" "entry (mzf_init s) = entry s"
    "mzf_file_len (mzf_init s) =
       ucast (contents (entry s) ! 18) OR push_bit 8 (ucast (contents (entry s) ! 19))"
    "currentID (mzf_init s) = MZF"
    unfolding i by simp_all
  show "128 \<le> length (mzf_hdr (mzf_init s))" unfolding i using ok(3) by simp
  show "\<not> read_fails (entry (mzf_init s))" unfolding i using ok(2) by simp
  show "take 128 (mzf_hdr (mzf_init s)) = take 128 (contents (entry s))"
    unfolding i using ok(3) by simp
  show "length (take 128 (contents (entry s))) = 128" using ok(3) by simp
  let ?h = "take 128 (contents (entry s)) @ drop 128 (mzf_hdr s)"
  have "hdr_cksum_loop ?h 0 0 = 0 + of_nat (sum_list (map bits_set (drop (unat (0 :: uint16_t)) (take 128 ?h))))"
    by (rule hdr_cksum_loop_sum) (use ok(3) in simp_all)
  then show "mzf_hdr_cksum (mzf_init s) =
       of_nat (sum_list (map bits_set (take 128 (contents (entry s)))))"
    unfolding i using ok(3) by simp
qed

lemma stage_in_trace:
  "mzf_stage (after mzf_process k s) \<in> set (map fst (trace stage_period mzf_process (k + Suc m) s))"
proof -
  have "trace stage_period mzf_process (k + Suc m) s =
      trace stage_period mzf_process k s @
      stage_period (after mzf_process k s) (mzf_process (after mzf_process k s)) #
      trace stage_period mzf_process m (mzf_process (after mzf_process k s))"
    unfolding trace_add trace.simps ..
  then show ?thesis by (simp add: stage_period_def)
qed

lemma stage_never_second_copy:
  "mzf_stage (after mzf_process k (mzf_init s)) \<noteq> FILE2 \<and>
   mzf_stage (after mzf_process k (mzf_init s)) \<noteq> CHKF2"
proof (cases "seekSet (entry s) 0 \<and> fst (read_block (entry s) (mzf_hdr s) 128) = 128")
  case True
  note i = init_success [of s]
  define body where "body = take (unat (mzf_file_len (mzf_init s)))
      (drop 128 (contents (entry (mzf_init s))))"
  define w where "w = mzf_tape_wave (take 128 (mzf_hdr (mzf_init s)))
      (mzf_hdr_cksum (mzf_init s)) body (of_nat (sum_list (map bits_set body)))"
  define n where "n = 70966 + 18 * length body"
  have tr: "trace stage_period mzf_process n (mzf_init s) = w"
    and dn: "mzf_stage (after mzf_process n (mzf_init s)) = MZF_STAGE.DONE"
    using session(1,2) [OF i(1-5) body_def refl n_def] True by (simp_all add: w_def)
  have "trace stage_period mzf_process (n + Suc k) (mzf_init s) =
      w @ replicate (Suc k) (MZF_STAGE.DONE, 0)"
    unfolding trace_add tr using done_phase [OF dn, of "Suc k"] by simp
  then have "remdups_adj (map fst (trace stage_period mzf_process (n + Suc k) (mzf_init s))) =
      [LGAP1, LTM_LONG, LTM_SHORT, LTM_ENDLONG, HDR1, CHKH1, HDR2, CHKH2,
       SGAP, STM_LONG, STM_SHORT, STM_ENDLONG, FILE1, CHKF1, MZF_STAGE.DONE]"
    unfolding w_def using tape_wave_stages [of "take 128 (mzf_hdr (mzf_init s))"] i(7,8) True
    by simp
  then have S: "set (map fst (trace stage_period mzf_process (n + Suc k) (mzf_init s))) =
      set [LGAP1, LTM_LONG, LTM_SHORT, LTM_ENDLONG, HDR1, CHKH1, HDR2, CHKH2,
       SGAP, STM_LONG, STM_SHORT, STM_ENDLONG, FILE1, CHKF1, MZF_STAGE.DONE]"
    by (metis remdups_adj_set)
  have mem: "mzf_stage (after mzf_process k (mzf_init s)) \<in>
      set (map fst (trace stage_period mzf_process (k + Suc n) (mzf_init s)))"
    by (rule stage_in_trace)
  have eq: "k + Suc n = n + Suc k" by simp
  from mem have "mzf_stage (after mzf_process k (mzf_init s)) \<in>
      set [LGAP1, LTM_LONG, LTM_SHORT, LTM_ENDLONG, HDR1, CHKH1, HDR2, CHKH2,
       SGAP, STM_LONG, STM_SHORT, STM_ENDLONG, FILE1, CHKF1, MZF_STAGE.DONE]"
    unfolding eq S .
  then show ?thesis by auto
next
  case False
  then have "\<not> seekSet (entry s) 0 \<or> fst (read_block (entry s) (mzf_hdr s) 128) \<noteq> 128"
    by simp
  then have "mzf_stage (mzf_init s) = MZF_STAGE.DONE"
    by (auto simp: mzf_init_def Let_def split: prod.split)
  from done_phase [OF this, of k] show ?thesis by simp
qed

section \<open>The order of the stages\<close>

text \<open>
  C1. After \<open>mzf_init\<close> has read the header, the stages in which the ticks of
  \<open>mzf_process\<close> run are, in order and with repetitions dropped: long gap, the three
  parts of the leader tapemark, header copy 1 and its checksum, header copy 2 and its
  checksum, short gap, the three parts of the trailer tapemark, file body, file
  checksum, and the terminal stage DONE, which is reached after 70966 ticks plus 18 for
  every body byte sent and never left. Whether or not the header was read, no state the
  machine reaches after \<open>mzf_init\<close> is in FILE2 or CHKF2.
\<close>

theorem mzf_stage_sequence:
  "(seekSet (entry s) 0 \<and> fst (read_block (entry s) (mzf_hdr s) 128) = 128 \<longrightarrow>
      remdups_adj (map fst (trace stage_period mzf_process
        (70967 + 18 * length (take (unat (mzf_file_len (mzf_init s)))
                                (drop 128 (contents (entry s)))) + n)
        (mzf_init s))) =
      [LGAP1, LTM_LONG, LTM_SHORT, LTM_ENDLONG, HDR1, CHKH1, HDR2, CHKH2,
       SGAP, STM_LONG, STM_SHORT, STM_ENDLONG, FILE1, CHKF1, MZF_STAGE.DONE]) \<and>
   mzf_stage (after mzf_process k (mzf_init s)) \<noteq> FILE2 \<and>
   mzf_stage (after mzf_process k (mzf_init s)) \<noteq> CHKF2"
proof -
  have "remdups_adj (map fst (trace stage_period mzf_process
        (70967 + 18 * length (take (unat (mzf_file_len (mzf_init s)))
                                (drop 128 (contents (entry s)))) + n)
        (mzf_init s))) =
      [LGAP1, LTM_LONG, LTM_SHORT, LTM_ENDLONG, HDR1, CHKH1, HDR2, CHKH2,
       SGAP, STM_LONG, STM_SHORT, STM_ENDLONG, FILE1, CHKF1, MZF_STAGE.DONE]"
    if ok: "seekSet (entry s) 0" "fst (read_block (entry s) (mzf_hdr s) 128) = 128"
  proof -
    note i = init_success [OF ok]
    define body where "body = take (unat (mzf_file_len (mzf_init s)))
      (drop 128 (contents (entry (mzf_init s))))"
    define w where "w = mzf_tape_wave (take 128 (mzf_hdr (mzf_init s)))
      (mzf_hdr_cksum (mzf_init s)) body (of_nat (sum_list (map bits_set body)))"
    define m where "m = 70966 + 18 * length body"
    have tr: "trace stage_period mzf_process m (mzf_init s) = w"
      and dn: "mzf_stage (after mzf_process m (mzf_init s)) = MZF_STAGE.DONE"
      using session(1,2) [OF i(1-5) body_def refl m_def] by (simp_all add: w_def)
    have e: "70967 + 18 * length (take (unat (mzf_file_len (mzf_init s)))
                                (drop 128 (contents (entry s)))) + n = m + Suc n"
      by (simp add: m_def body_def i(6))
    have "trace stage_period mzf_process (m + Suc n) (mzf_init s) =
        w @ replicate (Suc n) (MZF_STAGE.DONE, 0)"
      unfolding trace_add tr using done_phase [OF dn, of "Suc n"] by simp
    then show ?thesis
      unfolding e w_def using tape_wave_stages [of "take 128 (mzf_hdr (mzf_init s))"] i(7,8)
      by simp
  qed
  with stage_never_second_copy [of k s] show ?thesis by blast
qed

theorem mzf_stage_sequence_witness:
  "seekSet (entry (mzf_power_on (tape demo_image 0))) 0 \<and>
   fst (read_block (entry (mzf_power_on (tape demo_image 0)))
          (mzf_hdr (mzf_power_on (tape demo_image 0))) 128) = 128 \<and>
   remdups_adj (map fst (trace stage_period mzf_process 71021
        (mzf_init (mzf_power_on (tape demo_image 0))))) =
      [LGAP1, LTM_LONG, LTM_SHORT, LTM_ENDLONG, HDR1, CHKH1, HDR2, CHKH2,
       SGAP, STM_LONG, STM_SHORT, STM_ENDLONG, FILE1, CHKF1, MZF_STAGE.DONE] \<and>
   mzf_stage (after mzf_process 50000 (mzf_init (mzf_power_on (tape demo_image 0)))) \<noteq> FILE2 \<and>
   mzf_stage (after mzf_process 50000 (mzf_init (mzf_power_on (tape demo_image 0)))) \<noteq> CHKF2"
proof -
  let ?s = "mzf_power_on (tape demo_image 0)"
  have ok: "seekSet (entry ?s) 0" "fst (read_block (entry ?s) (mzf_hdr ?s) 128) = 128"
    by (simp_all add: seekSet_def read_block_def mzf_power_on_def tape_def globals.extend_def
        demo_image_def Let_def)
  have c: "contents (entry ?s) = demo_image"
    by (simp add: mzf_power_on_def tape_def globals.extend_def)
  have l: "mzf_file_len (mzf_init ?s) = 3"
    unfolding init_success(10) [OF ok] c by (simp add: demo_image_def nth_append)
  have b: "length (take (unat (mzf_file_len (mzf_init ?s))) (drop 128 (contents (entry ?s)))) = 3"
    unfolding l c by (simp add: demo_image_def)
  have n: "70967 + 18 * length (take (unat (mzf_file_len (mzf_init ?s)))
      (drop 128 (contents (entry ?s)))) + 0 = 71021"
    unfolding b by simp
  from mzf_stage_sequence [of ?s 0 50000] show ?thesis
    unfolding n using ok by blast
qed

section \<open>The gaps and the tapemarks of a session\<close>

text \<open>
  C6. After \<open>mzf_init\<close> has read the header, the first 44162 ticks are the long gap of
  22000 short pulses (44000 half-periods) and the leader tapemark of 40 long, 40 short
  and 1 long pulse, each half tagged with its stage, and the machine is then in HDR1.
  After 48846 ticks it is in SGAP, and the next 22082 ticks are the short gap of 11000
  short pulses and the trailer tapemark of 20 long, 20 short and 1 long pulse, after
  which it is in FILE1.
\<close>

theorem mzf_gap_tapemark_counts:
  assumes "seekSet (entry s) 0" "fst (read_block (entry s) (mzf_hdr s) 128) = 128"
  shows "trace stage_period mzf_process 44162 (mzf_init s) =
           pulses LGAP1 False 22000 @ pulses LTM_LONG True 40 @ pulses LTM_SHORT False 40 @
           pulses LTM_ENDLONG True 1 \<and>
         length (pulses LGAP1 False 22000) = 44000 \<and>
         mzf_stage (after mzf_process 44162 (mzf_init s)) = HDR1 \<and>
         mzf_stage (after mzf_process 48846 (mzf_init s)) = SGAP \<and>
         trace stage_period mzf_process 22082 (after mzf_process 48846 (mzf_init s)) =
           pulses SGAP False 11000 @ pulses STM_LONG True 20 @ pulses STM_SHORT False 20 @
           pulses STM_ENDLONG True 1 \<and>
         mzf_stage (after mzf_process 70928 (mzf_init s)) = FILE1"
proof -
  note i = init_success [OF assms]
  note l = leader_phase [OF i(1,2,3)]
  have sg: "mzf_stage (after mzf_process 48846 (mzf_init s)) = SGAP"
    "mzf_half (after mzf_process 48846 (mzf_init s)) = 0"
    "mzf_pulses_left (after mzf_process 48846 (mzf_init s)) = 11000"
    using session(6) [OF i(1-5) refl refl refl] by simp_all
  note t = trailer_phase [OF sg]
  have "after mzf_process (48846 + 22082) (mzf_init s) =
      after mzf_process 22082 (after mzf_process 48846 (mzf_init s))"
    by (rule after_add)
  then have f: "mzf_stage (after mzf_process 70928 (mzf_init s)) = FILE1"
    unfolding t(2) by simp
  have h: "mzf_stage (after mzf_process 44162 (mzf_init s)) = HDR1"
    unfolding l(2) by simp
  show ?thesis using l(1) t(1) sg(1) f h by (simp add: length_pulses)
qed

theorem mzf_gap_tapemark_counts_witness:
  "seekSet (entry (mzf_power_on (tape demo_image 0))) 0 \<and>
   fst (read_block (entry (mzf_power_on (tape demo_image 0)))
          (mzf_hdr (mzf_power_on (tape demo_image 0))) 128) = 128 \<and>
   trace stage_period mzf_process 44162 (mzf_init (mzf_power_on (tape demo_image 0))) =
     pulses LGAP1 False 22000 @ pulses LTM_LONG True 40 @ pulses LTM_SHORT False 40 @
     pulses LTM_ENDLONG True 1 \<and>
   trace stage_period mzf_process 22082
       (after mzf_process 48846 (mzf_init (mzf_power_on (tape demo_image 0)))) =
     pulses SGAP False 11000 @ pulses STM_LONG True 20 @ pulses STM_SHORT False 20 @
     pulses STM_ENDLONG True 1 \<and>
   mzf_stage (after mzf_process 70928 (mzf_init (mzf_power_on (tape demo_image 0)))) = FILE1"
proof -
  let ?s = "mzf_power_on (tape demo_image 0)"
  have ok: "seekSet (entry ?s) 0" "fst (read_block (entry ?s) (mzf_hdr ?s) 128) = 128"
    by (simp_all add: seekSet_def read_block_def mzf_power_on_def tape_def globals.extend_def
        demo_image_def Let_def)
  from mzf_gap_tapemark_counts [OF ok] ok show ?thesis by blast
qed

section \<open>The checksum\<close>

text \<open>
  C2. \<open>popcount8\<close> returns the number of 1-bits of every byte. The header checksum that
  \<open>mzf_init\<close> computes over the 128 header bytes it has read is the sum of their
  1-bit counts modulo 65536. A checksum stage entered with no byte loaded sends in its
  first 36 ticks the byte \<open>checksum >> 8\<close> and then the byte \<open>checksum & 0xFF\<close>, each as
  a leader pulse and eight data pulses, where the checksum is the header's in CHKH1 and
  CHKH2 and the file's otherwise.
\<close>

theorem mzf_checksum:
  "unat (popcount8 v) = bits_set v \<and>
   (seekSet (entry s) 0 \<and> fst (read_block (entry s) (mzf_hdr s) 128) = 128 \<longrightarrow>
      take 128 (mzf_hdr (mzf_init s)) = take 128 (contents (entry s)) \<and>
      length (take 128 (mzf_hdr (mzf_init s))) = 128 \<and>
      unat (mzf_hdr_cksum (mzf_init s)) =
        sum_list (map bits_set (take 128 (mzf_hdr (mzf_init s)))) mod 65536) \<and>
   (is_bytes_stage (mzf_stage t) \<and> mzf_src t = CHK \<and> \<not> mzf_have_byte t \<and> mzf_half t = 0 \<and>
    mzf_chk_byte_idx t = 0 \<longrightarrow>
      map snd (trace stage_period mzf_process 36 t) =
        byte_wave (ucast (drop_bit 8
          (if mzf_stage t = CHKH1 \<or> mzf_stage t = CHKH2
           then mzf_hdr_cksum t else mzf_file_cksum t))) @
        byte_wave (ucast
          ((if mzf_stage t = CHKH1 \<or> mzf_stage t = CHKH2
            then mzf_hdr_cksum t else mzf_file_cksum t) AND 0xFF)))"
proof -
  have a: "unat (popcount8 v) = bits_set v" by (rule popcount8_bits_set)
  have b: "take 128 (mzf_hdr (mzf_init s)) = take 128 (contents (entry s)) \<and>
      length (take 128 (mzf_hdr (mzf_init s))) = 128 \<and>
      unat (mzf_hdr_cksum (mzf_init s)) =
        sum_list (map bits_set (take 128 (mzf_hdr (mzf_init s)))) mod 65536"
    if ok: "seekSet (entry s) 0" "fst (read_block (entry s) (mzf_hdr s) 128) = 128"
  proof -
    note i = init_success [OF ok]
    have "unat (mzf_hdr_cksum (mzf_init s)) =
        sum_list (map bits_set (take 128 (contents (entry s)))) mod 2 ^ LENGTH(16)"
      unfolding i(9) by (rule unat_of_nat)
    then show ?thesis using i(7,8) by simp
  qed
  have c: "map snd (trace stage_period mzf_process 36 t) =
        byte_wave (ucast (drop_bit 8
          (if mzf_stage t = CHKH1 \<or> mzf_stage t = CHKH2
           then mzf_hdr_cksum t else mzf_file_cksum t))) @
        byte_wave (ucast
          ((if mzf_stage t = CHKH1 \<or> mzf_stage t = CHKH2
            then mzf_hdr_cksum t else mzf_file_cksum t) AND 0xFF))"
    if e: "is_bytes_stage (mzf_stage t)" "mzf_src t = CHK" "\<not> mzf_have_byte t" "mzf_half t = 0"
      "mzf_chk_byte_idx t = 0"
  proof -
    obtain cp where "trace stage_period mzf_process 36 t =
       bytes_wave (mzf_stage t)
         [ucast (drop_bit 8 (if mzf_stage t = CHKH1 \<or> mzf_stage t = CHKH2
                             then mzf_hdr_cksum t else mzf_file_cksum t)),
          ucast ((if mzf_stage t = CHKH1 \<or> mzf_stage t = CHKH2
                  then mzf_hdr_cksum t else mzf_file_cksum t) AND 0xFF)]"
      using chk_bytes [OF e refl] by blast
    then show ?thesis by (simp add: bytes_wave_def comp_def)
  qed
  from a b c show ?thesis by blast
qed

theorem mzf_checksum_witness:
  "seekSet (entry (mzf_power_on (tape demo_image 0))) 0 \<and>
   fst (read_block (entry (mzf_power_on (tape demo_image 0)))
          (mzf_hdr (mzf_power_on (tape demo_image 0))) 128) = 128 \<and>
   unat (mzf_hdr_cksum (mzf_init (mzf_power_on (tape demo_image 0)))) =
     sum_list (map bits_set (take 128 (mzf_hdr (mzf_init (mzf_power_on (tape demo_image 0))))))
       mod 65536 \<and>
   mzf_stage ((mzf_power_on (tape demo_image 0))
      \<lparr>mzf_stage := CHKH1, mzf_hdr_cksum := 0x0102, mzf_src := CHK\<rparr>) = CHKH1 \<and>
   map snd (trace stage_period mzf_process 36 ((mzf_power_on (tape demo_image 0))
      \<lparr>mzf_stage := CHKH1, mzf_hdr_cksum := 0x0102, mzf_src := CHK\<rparr>)) =
     byte_wave 1 @ byte_wave 2"
proof -
  let ?s = "mzf_power_on (tape demo_image 0)"
  let ?t = "?s\<lparr>mzf_stage := CHKH1, mzf_hdr_cksum := 0x0102, mzf_src := CHK\<rparr>"
  have ok: "seekSet (entry ?s) 0" "fst (read_block (entry ?s) (mzf_hdr ?s) 128) = 128"
    by (simp_all add: seekSet_def read_block_def mzf_power_on_def tape_def globals.extend_def
        demo_image_def Let_def)
  have e: "is_bytes_stage (mzf_stage ?t) \<and> mzf_src ?t = CHK \<and> \<not> mzf_have_byte ?t \<and>
      mzf_half ?t = 0 \<and> mzf_chk_byte_idx ?t = 0"
    by (simp add: mzf_power_on_def globals.extend_def)
  have v: "mzf_stage ?t = CHKH1" "mzf_hdr_cksum ?t = 0x0102" by simp_all
  have hi: "(ucast (drop_bit 8 (0x0102 :: uint16_t)) :: byte) = 1"
    and lo: "(ucast ((0x0102 :: uint16_t) AND 0xFF) :: byte) = 2"
    by simp_all
  from mzf_checksum [of _ ?s ?t] ok e
  have "unat (mzf_hdr_cksum (mzf_init ?s)) =
        sum_list (map bits_set (take 128 (mzf_hdr (mzf_init ?s)))) mod 65536"
    and "map snd (trace stage_period mzf_process 36 ?t) =
        byte_wave (ucast (drop_bit 8
          (if mzf_stage ?t = CHKH1 \<or> mzf_stage ?t = CHKH2
           then mzf_hdr_cksum ?t else mzf_file_cksum ?t))) @
        byte_wave (ucast
          ((if mzf_stage ?t = CHKH1 \<or> mzf_stage ?t = CHKH2
            then mzf_hdr_cksum ?t else mzf_file_cksum ?t) AND 0xFF))"
    by blast+
  then show ?thesis using ok unfolding v by (simp add: hi lo)
qed

section \<open>The half flag at stage boundaries\<close>

lemma trace_Suc_last:
  "trace obs f (Suc n) s = trace obs f n s @ [obs (after f n s) (f (after f n s))]"
  by (induction n arbitrary: s) simp_all

lemma after_Suc_last: "after f (Suc n) s = f (after f n s)"
  by (induction n arbitrary: s) simp_all

text \<open>
  C10. \<open>mzf_init\<close> and \<open>mzf_next_stage\<close> leave \<open>mzf_half\<close> at 0. In every state the
  machine reaches after \<open>mzf_init\<close>: a tick that changes the stage leaves \<open>mzf_half\<close> at
  0, and it either hands out the zero period with no pulse half out before it, or hands
  out the down half (494 or 264) that completes a pulse; and a tick taken with
  \<open>mzf_half = 0\<close> hands out the zero period or an up half (464 or 240). So no pulse
  straddles a stage boundary and every stage starts on an up half.
\<close>

theorem mzf_half_zero_at_stage_entry:
  "mzf_half (mzf_init s) = 0 \<and>
   mzf_half (mzf_next_stage st u) = 0 \<and>
   (mzf_stage (mzf_process (after mzf_process n (mzf_init s))) \<noteq>
      mzf_stage (after mzf_process n (mzf_init s)) \<longrightarrow>
    mzf_half (mzf_process (after mzf_process n (mzf_init s))) = 0 \<and>
    (currentPeriod (mzf_process (after mzf_process n (mzf_init s))) = 0 \<and>
       mzf_half (after mzf_process n (mzf_init s)) = 0 \<or>
     (currentPeriod (mzf_process (after mzf_process n (mzf_init s))) = 494 \<or>
      currentPeriod (mzf_process (after mzf_process n (mzf_init s))) = 264) \<and>
       mzf_half (after mzf_process n (mzf_init s)) = 1)) \<and>
   (mzf_half (after mzf_process n (mzf_init s)) = 0 \<longrightarrow>
    currentPeriod (mzf_process (after mzf_process n (mzf_init s))) = 0 \<or>
    currentPeriod (mzf_process (after mzf_process n (mzf_init s))) = 464 \<or>
    currentPeriod (mzf_process (after mzf_process n (mzf_init s))) = 240)"
proof -
  have i: "mzf_half (mzf_init s) = 0"
    by (simp add: mzf_init_def mzf_next_stage_def Let_def split: prod.split)
  have ns: "mzf_half (mzf_next_stage st u) = 0" by (simp add: mzf_next_stage_def)
  have "half_ok (after mzf_process n (mzf_init s))"
    by (rule half_ok_after [OF half_ok_init])
  then have "tick_ok (after mzf_process n (mzf_init s))
      (mzf_process (after mzf_process n (mzf_init s)))"
    using half_ok_process by blast
  with i ns show ?thesis unfolding tick_ok_def by blast
qed

theorem mzf_half_zero_at_stage_entry_witness:
  "mzf_stage (after mzf_process 44161 (mzf_init (mzf_power_on (tape demo_image 0)))) =
     LTM_ENDLONG \<and>
   mzf_stage (mzf_process (after mzf_process 44161 (mzf_init (mzf_power_on (tape demo_image 0))))) =
     HDR1 \<and>
   mzf_half (mzf_process (after mzf_process 44161 (mzf_init (mzf_power_on (tape demo_image 0))))) =
     0 \<and>
   currentPeriod
     (mzf_process (after mzf_process 44161 (mzf_init (mzf_power_on (tape demo_image 0))))) = 494 \<and>
   mzf_half (after mzf_process 44161 (mzf_init (mzf_power_on (tape demo_image 0)))) = 1 \<and>
   mzf_half (after mzf_process 0 (mzf_init (mzf_power_on (tape demo_image 0)))) = 0 \<and>
   currentPeriod
     (mzf_process (after mzf_process 0 (mzf_init (mzf_power_on (tape demo_image 0))))) = 240"
proof -
  let ?s = "mzf_power_on (tape demo_image 0)"
  let ?t = "after mzf_process 44161 (mzf_init ?s)"
  have ok: "seekSet (entry ?s) 0" "fst (read_block (entry ?s) (mzf_hdr ?s) 128) = 128"
    by (simp_all add: seekSet_def read_block_def mzf_power_on_def tape_def globals.extend_def
        demo_image_def Let_def)
  note i = init_success [OF ok]
  note l = leader_phase [OF i(1,2,3)]
  have n: "(44162::nat) = Suc 44161" by simp
  have "last (trace stage_period mzf_process (Suc 44161) (mzf_init ?s)) =
      stage_period ?t (mzf_process ?t)"
    unfolding trace_Suc_last by simp
  moreover have "last (trace stage_period mzf_process (Suc 44161) (mzf_init ?s)) =
      (LTM_ENDLONG, 494)"
    using l(1) unfolding n by (simp add: pulses_def pulse_halves_def)
  ultimately have b: "mzf_stage ?t = LTM_ENDLONG" "currentPeriod (mzf_process ?t) = 494"
    by (simp_all add: stage_period_def)
  have "mzf_process ?t = after mzf_process (Suc 44161) (mzf_init ?s)"
    by (simp only: after_Suc_last)
  then have a: "mzf_stage (mzf_process ?t) = HDR1"
    using l(2) unfolding n by simp
  then have ch: "mzf_stage (mzf_process ?t) \<noteq> mzf_stage ?t" using b(1) by simp
  have f: "mzf_half (after mzf_process 0 (mzf_init ?s)) = 0"
    "currentPeriod (mzf_process (after mzf_process 0 (mzf_init ?s))) = 240"
    using i(1,2) by (simp_all add: process_at(1) pulse_stage_up)
  from mzf_half_zero_at_stage_entry [of ?s HDR1 ?s 44161] ch b(2)
  have "mzf_half (mzf_process ?t) = 0" "mzf_half ?t = 1"
    by auto
  with a b f show ?thesis by simp
qed

section \<open>One byte on the tape\<close>

lemma pulse_kinds_pulse:
  "pulse_kinds (pulse_halves L @ ps) = map_option (Cons L) (pulse_kinds ps)"
  by (cases L) (simp_all add: pulse_halves_def)

lemma pulse_kinds_byte_wave:
  "pulse_kinds (byte_wave b) = Some (True # map (bit b) [7, 6, 5, 4, 3, 2, 1, 0])"
proof -
  have e: "pulse_kinds (pulse_halves L) = Some [L]" for L
    using pulse_kinds_pulse [of L "[]"] by simp
  show ?thesis
    by (simp add: byte_wave_def pulse_kinds_pulse e del: append_assoc)
qed

lemma decode_byte_wave: "decode_byte (byte_wave b) = Some b"
  using bits_round_trip [of b] by (simp add: decode_byte_def pulse_kinds_byte_wave)

lemma loaded_byte_periods:
  assumes "mzf_have_byte t" "\<not> mzf_leader_done t" "mzf_bit_mask t = 0x80" "mzf_half t = 0"
  shows "trace period (mzf_process_bytes n) 18 t = byte_wave (mzf_cur_byte t)"
  using assms
  by (simp add: trace_numeral process_bytes_have byte_ticks mask_bits byte_wave_def
      pulse_halves_def period_def split del: if_split)

lemma loaded_byte_pending:
  assumes "mzf_have_byte t" "\<not> mzf_leader_done t" "mzf_bit_mask t = 0x80" "mzf_half t = 0"
  shows "trace (\<lambda>a b. mzf_have_byte b) (mzf_process_bytes n) 18 t = replicate 17 True @ [False]"
proof -
  have r: "replicate 17 True @ [False] =
      [True, True, True, True, True, True, True, True, True, True, True, True, True, True,
       True, True, True, False]"
    by (simp add: numeral_eq_Suc)
  show ?thesis
    unfolding r using assms
    by (simp add: trace_numeral process_bytes_have byte_ticks split del: if_split)
qed

text \<open>
  C4. When \<open>mzf_process_bytes\<close> is called with no byte loaded and no pulse half out, and
  the load gives a byte \<open>b\<close>, the next 18 calls hand out the half-periods of one long
  leader pulse and eight data pulses; read back two at a time, long as 1 and short as
  0, most significant bit first, they give \<open>b\<close> again. The byte stays loaded through the
  first 17 calls and is released by the 18th.
\<close>

theorem mzf_byte_round_trip:
  assumes "\<not> mzf_have_byte s" "mzf_half s = 0" "mzf_load_next_byte s = (True, s1)"
  shows "trace period (mzf_process_bytes n) 18 s = byte_wave (mzf_cur_byte s1) \<and>
         pulse_kinds (trace period (mzf_process_bytes n) 18 s) =
           Some (True # map (bit (mzf_cur_byte s1)) [7, 6, 5, 4, 3, 2, 1, 0]) \<and>
         decode_byte (trace period (mzf_process_bytes n) 18 s) = Some (mzf_cur_byte s1) \<and>
         trace (\<lambda>a b. mzf_have_byte b) (mzf_process_bytes n) 18 s = replicate 17 True @ [False]"
proof -
  let ?t = "s1\<lparr>mzf_leader_done := False, mzf_bit_mask := 0x80\<rparr>"
  note ls = load_success [OF assms(3)]
  have eq: "mzf_process_bytes n s = mzf_process_bytes n ?t"
    by (rule process_bytes_load [OF assms(1,3)])
  have t: "mzf_have_byte ?t" "\<not> mzf_leader_done ?t" "mzf_bit_mask ?t = 0x80" "mzf_half ?t = 0"
    using ls assms(2) by simp_all
  have "trace period (mzf_process_bytes n) (Suc 17) s =
      trace period (mzf_process_bytes n) (Suc 17) ?t"
    by (rule trace_cong_first) (simp_all add: eq period_def)
  then have p: "trace period (mzf_process_bytes n) 18 s = byte_wave (mzf_cur_byte s1)"
    using loaded_byte_periods [OF t, of n] by simp
  have "trace (\<lambda>a b. mzf_have_byte b) (mzf_process_bytes n) (Suc 17) s =
      trace (\<lambda>a b. mzf_have_byte b) (mzf_process_bytes n) (Suc 17) ?t"
    by (rule trace_cong_first) (simp_all add: eq)
  then have h: "trace (\<lambda>a b. mzf_have_byte b) (mzf_process_bytes n) 18 s =
      replicate 17 True @ [False]"
    using loaded_byte_pending [OF t, of n] by simp
  show ?thesis
    unfolding p using h by (simp add: decode_byte_wave pulse_kinds_byte_wave)
qed

theorem mzf_byte_round_trip_witness:
  "mzf_load_next_byte ((mzf_power_on (tape demo_image 0))\<lparr>mzf_hdr := replicate 128 0xA5\<rparr>) =
     (True, (mzf_power_on (tape demo_image 0))
        \<lparr>mzf_hdr := replicate 128 0xA5, mzf_cur_byte := 0xA5, mzf_hdr_idx := 1,
         mzf_have_byte := True\<rparr>) \<and>
   trace period (mzf_process_bytes 128) 18
       ((mzf_power_on (tape demo_image 0))\<lparr>mzf_hdr := replicate 128 0xA5\<rparr>) =
     [464, 494, 464, 494, 240, 264, 464, 494, 240, 264, 240, 264, 464, 494, 240, 264,
      464, 494] \<and>
   decode_byte (trace period (mzf_process_bytes 128) 18
       ((mzf_power_on (tape demo_image 0))\<lparr>mzf_hdr := replicate 128 0xA5\<rparr>)) = Some 0xA5"
proof -
  let ?s = "(mzf_power_on (tape demo_image 0))\<lparr>mzf_hdr := replicate 128 0xA5\<rparr>"
  let ?s1 = "(mzf_power_on (tape demo_image 0))
        \<lparr>mzf_hdr := replicate 128 0xA5, mzf_cur_byte := 0xA5, mzf_hdr_idx := 1,
         mzf_have_byte := True\<rparr>"
  have h: "\<not> mzf_have_byte ?s" "mzf_half ?s = 0"
    by (simp_all add: mzf_power_on_def globals.extend_def)
  have l: "mzf_load_next_byte ?s = (True, ?s1)"
    by (simp add: mzf_load_next_byte_def mzf_power_on_def globals.extend_def word_le_nat_alt)
  have w: "byte_wave (0xA5 :: byte) =
     [464, 494, 464, 494, 240, 264, 464, 494, 240, 264, 240, 264, 464, 494, 240, 264,
      464, 494]"
    by (simp add: byte_wave_def pulse_halves_def bit_numeral_simps)
  from mzf_byte_round_trip [OF h l, of 128]
  have "trace period (mzf_process_bytes 128) 18 ?s = byte_wave (mzf_cur_byte ?s1)"
    and "decode_byte (trace period (mzf_process_bytes 128) 18 ?s) = Some (mzf_cur_byte ?s1)"
    by blast+
  then show ?thesis using l w by simp
qed

section \<open>The Aquarius encoder\<close>

subsection \<open>One tick\<close>

lemma caq_mid:
  "caq_halves_left s \<noteq> 0 \<Longrightarrow>
   caq_process s =
     s\<lparr>currentPeriod := caq_half_period s, caq_halves_left := caq_halves_left s - 1\<rparr>"
  by (simp add: caq_process_def caq_emit_half_def Let_def)

lemma caq_start:
  assumes "caq_halves_left s = 0" "\<not> caq_have_byte s" "fst (ReadByte s)"
  shows "caq_process s =
     s\<lparr>currentPeriod := 544, bytesRead := bytesRead s + 1,
       outByte := contents (entry s) ! unat (bytesRead s), caq_stage := DATA_BITS,
       caq_cur_byte := contents (entry s) ! unat (bytesRead s), caq_have_byte := True,
       caq_bit_idx := 7, caq_halves_left := 3, caq_half_period := 544\<rparr>"
  using assms
  by (simp add: caq_process_def caq_emit_half_def caq_get_next_byte_def caq_begin_bit_def
      ReadByte_def caq_consts Let_def split: if_splits)

lemma caq_data:
  assumes "caq_halves_left s = 0" "caq_have_byte s" "caq_stage s = DATA_BITS"
  shows "caq_process s =
     s\<lparr>currentPeriod :=
         (if drop_bit (nat (sint (caq_bit_idx s))) (caq_cur_byte s) AND 1 \<noteq> 0
          then 272 else 544),
       caq_stage := (if caq_bit_idx s - 1 <s 0 then STOP_BIT1 else DATA_BITS),
       caq_bit_idx := caq_bit_idx s - 1, caq_halves_left := 3,
       caq_half_period :=
         (if drop_bit (nat (sint (caq_bit_idx s))) (caq_cur_byte s) AND 1 \<noteq> 0
          then 272 else 544)\<rparr>"
  using assms
  by (simp add: caq_process_def caq_emit_half_def caq_begin_bit_def caq_consts Let_def)

lemma caq_stop1:
  assumes "caq_halves_left s = 0" "caq_have_byte s" "caq_stage s = STOP_BIT1"
  shows "caq_process s =
     s\<lparr>currentPeriod := 272, caq_stage := STOP_BIT2, caq_halves_left := 3,
       caq_half_period := 272\<rparr>"
  using assms
  by (simp add: caq_process_def caq_emit_half_def caq_begin_bit_def caq_consts Let_def)

lemma caq_stop2:
  assumes "caq_halves_left s = 0" "caq_have_byte s" "caq_stage s = STOP_BIT2"
  shows "caq_process s =
     s\<lparr>currentPeriod := 272, caq_stage := START_BIT, caq_have_byte := False,
       caq_halves_left := 3, caq_half_period := 272\<rparr>"
  using assms
  by (simp add: caq_process_def caq_emit_half_def caq_begin_bit_def caq_consts Let_def)

lemma caq_finish:
  assumes "caq_halves_left s = 0" "\<not> caq_have_byte s" "\<not> fst (ReadByte s)"
  shows "caq_process s =
     s\<lparr>currentPeriod := 0, currentID := IDEOF, currentTask := PROCESSID, count_r := 255,
       BAUDRATE := (if caq_baudrate_overridden s then caq_saved_baudrate s else BAUDRATE s),
       caq_stage := DONE, caq_baudrate_overridden := False\<rparr>"
  using assms
  by (auto simp: caq_process_def caq_get_next_byte_def ReadByte_def Let_def)

lemma caq_bit_tests:
  "(b AND 1 \<noteq> 0) = bit b 0" "bit (drop_bit n b) 0 = bit b n"
  for b :: byte
proof -
  show "(b AND 1 \<noteq> 0) = bit b 0" using mask_bits(8) [of b] by simp
  show "bit (drop_bit n b) 0 = bit b n" by (simp add: bit_drop_bit_eq)
qed

lemmas caq_ticks = caq_mid caq_data caq_stop1 caq_stop2

subsection \<open>One byte\<close>

lemma caq_wave_frame:
  "caq_wave (caq_frame b) =
     [544, 544, 544, 544] @
     concat (map (\<lambda>i. replicate 4 (if bit b i then 272 else 544)) [7, 6, 5, 4, 3, 2, 1, 0]) @
     [272, 272, 272, 272, 272, 272, 272, 272]"
  by (simp add: caq_wave_def caq_frame_def numeral_eq_Suc comp_def)

lemma caq_byte_periods:
  assumes "caq_halves_left s = 0" "\<not> caq_have_byte s" "fst (ReadByte s)"
  shows "trace period caq_process 44 s =
           caq_wave (caq_frame (contents (entry s) ! unat (bytesRead s)))"
proof -
  have r: "replicate 4 x = [x, x, x, x]" for x :: uint16_t by (simp add: numeral_eq_Suc)
  show ?thesis
    unfolding caq_wave_frame
    by (simp add: trace_numeral caq_start [OF assms] caq_ticks caq_bit_tests word_sless_alt
        period_def r split del: if_split)
qed

lemma caq_byte_after:
  assumes "caq_halves_left s = 0" "\<not> caq_have_byte s" "fst (ReadByte s)"
  shows "after caq_process 44 s =
     s\<lparr>currentPeriod := 272, bytesRead := bytesRead s + 1,
       outByte := contents (entry s) ! unat (bytesRead s), caq_stage := START_BIT,
       caq_cur_byte := contents (entry s) ! unat (bytesRead s), caq_have_byte := False,
       caq_bit_idx := - 1, caq_halves_left := 0, caq_half_period := 272\<rparr>"
  by (simp add: after_numeral caq_start [OF assms] caq_ticks caq_bit_tests word_sless_alt
      split del: if_split)

lemma caq_byte_boundary:
  assumes "caq_halves_left s = 0" "\<not> caq_have_byte s" "fst (ReadByte s)"
  shows "trace (\<lambda>a b. caq_halves_left b = 0 \<and> \<not> caq_have_byte b) caq_process 44 s =
           replicate 43 False @ [True]"
proof -
  have r: "replicate 43 False @ [True] =
     [False, False, False, False, False, False, False, False, False, False, False,
      False, False, False, False, False, False, False, False, False, False, False,
      False, False, False, False, False, False, False, False, False, False, False,
      False, False, False, False, False, False, False, False, False, False, True]"
    by (simp add: numeral_eq_Suc)
  show ?thesis
    unfolding r
    by (simp add: trace_numeral caq_start [OF assms] caq_ticks caq_bit_tests word_sless_alt
        split del: if_split)
qed

subsection \<open>A whole image\<close>

lemma caq_session:
  assumes "caq_halves_left s = 0" "\<not> caq_have_byte s" "\<not> read_fails (entry s)"
    "length (contents (entry s)) < 2 ^ 32"
    "bs = drop (unat (bytesRead s)) (contents (entry s))"
  shows "trace period caq_process (44 * length bs + 1) s =
           concat (map (\<lambda>b. caq_wave (caq_frame b)) bs) @ [0] \<and>
         caq_stage (after caq_process (44 * length bs + 1) s) = DONE \<and>
         currentID (after caq_process (44 * length bs + 1) s) = IDEOF \<and>
         \<not> caq_baudrate_overridden (after caq_process (44 * length bs + 1) s) \<and>
         BAUDRATE (after caq_process (44 * length bs + 1) s) =
           (if caq_baudrate_overridden s then caq_saved_baudrate s else BAUDRATE s)"
  using assms
proof (induction bs arbitrary: s)
  case Nil
  then have "length (contents (entry s)) \<le> unat (bytesRead s)" by simp
  then have "\<not> fst (ReadByte s)" by (simp add: read_byte_ok)
  from caq_finish [OF Nil.prems(1,2) this] show ?case by (simp add: period_def)
next
  case (Cons b bs)
  have lt: "unat (bytesRead s) < length (contents (entry s))"
  proof (rule ccontr)
    assume "\<not> unat (bytesRead s) < length (contents (entry s))"
    then have "drop (unat (bytesRead s)) (contents (entry s)) = []" by simp
    with Cons.prems(5) show False by simp
  qed
  with Cons.prems(3) have ok: "fst (ReadByte s)" by (simp add: read_byte_ok)
  from Cons.prems(5) lt have b: "b = contents (entry s) ! unat (bytesRead s)"
    and bs: "bs = drop (Suc (unat (bytesRead s))) (contents (entry s))"
    by (simp_all add: Cons_nth_drop_Suc [symmetric])
  from lt Cons.prems(4) have "unat (bytesRead s) + unat (1 :: uint32_t) < 2 ^ LENGTH(32)"
    by simp
  then have br: "unat (bytesRead s + 1) = Suc (unat (bytesRead s))"
    by (simp add: unat_add_lem [THEN iffD1])
  let ?s' = "s\<lparr>currentPeriod := 272, bytesRead := bytesRead s + 1,
       outByte := contents (entry s) ! unat (bytesRead s), caq_stage := START_BIT,
       caq_cur_byte := contents (entry s) ! unat (bytesRead s), caq_have_byte := False,
       caq_bit_idx := - 1, caq_halves_left := 0, caq_half_period := 272\<rparr>"
  note tr = caq_byte_periods [OF Cons.prems(1,2) ok]
  note af = caq_byte_after [OF Cons.prems(1,2) ok]
  have ih: "trace period caq_process (44 * length bs + 1) ?s' =
           concat (map (\<lambda>b. caq_wave (caq_frame b)) bs) @ [0] \<and>
         caq_stage (after caq_process (44 * length bs + 1) ?s') = DONE \<and>
         currentID (after caq_process (44 * length bs + 1) ?s') = IDEOF \<and>
         \<not> caq_baudrate_overridden (after caq_process (44 * length bs + 1) ?s') \<and>
         BAUDRATE (after caq_process (44 * length bs + 1) ?s') =
           (if caq_baudrate_overridden ?s' then caq_saved_baudrate ?s' else BAUDRATE ?s')"
    by (rule Cons.IH) (use Cons.prems(3,4) bs br in simp_all)
  have n: "44 * length (b # bs) + 1 = 44 + (44 * length bs + 1)" by simp
  have t: "trace period caq_process (44 + (44 * length bs + 1)) s =
      caq_wave (caq_frame b) @ concat (map (\<lambda>b. caq_wave (caq_frame b)) bs) @ [0]"
    unfolding trace_add [of period caq_process 44 "44 * length bs + 1" s] af tr b
    using ih by (simp only:)
  have a: "after caq_process (44 + (44 * length bs + 1)) s =
      after caq_process (44 * length bs + 1) ?s'"
    unfolding after_add [of caq_process 44 "44 * length bs + 1" s] af ..
  show ?case
    unfolding n t a using ih by (simp del: after.simps trace.simps)
qed

lemma caq_init_boundary:
  "caq_halves_left (caq_init s) = 0" "\<not> caq_have_byte (caq_init s)"
  "entry (caq_init s) = entry s" "bytesRead (caq_init s) = bytesRead s"
  "currentID (caq_init s) = CAQ"
  by (simp_all add: caq_init_def Let_def)

section \<open>The framing of a byte\<close>

text \<open>
  C3. When the CAQ encoder is between bytes and \<open>ReadByte\<close> delivers a byte \<open>b\<close>, the
  next 44 calls of \<open>caq_process\<close> hand out 44 half-periods: 4 space-timed ones for the
  start bit, 4 for each data bit from bit 7 down to bit 0 (mark-timed for 1, space-timed
  for 0), and 8 mark-timed ones for the two stop bits, whatever \<open>b\<close> is. That is the
  wave of the 11-bit frame of \<open>b\<close>. The encoder is between bytes again after the 44th
  call and not before, and has read one byte. Over a whole image without device faults,
  started by \<open>caq_init\<close>, the output is the waves of the frames of all the bytes from
  the read position on, followed by the zero period of the end-of-file tick.
\<close>

theorem caq_byte_framing:
  "(caq_halves_left s = 0 \<and> \<not> caq_have_byte s \<and> fst (ReadByte s) \<longrightarrow>
      trace period caq_process 44 s =
        replicate 4 CAQ_SPACE_HALF_US @
        concat (map (\<lambda>i. replicate 4
                      (if bit (contents (entry s) ! unat (bytesRead s)) i
                       then CAQ_MARK_HALF_US else CAQ_SPACE_HALF_US))
                  [7, 6, 5, 4, 3, 2, 1, 0]) @
        replicate 8 CAQ_MARK_HALF_US \<and>
      trace period caq_process 44 s =
        caq_wave (caq_frame (contents (entry s) ! unat (bytesRead s))) \<and>
      length (caq_frame (contents (entry s) ! unat (bytesRead s))) = 11 \<and>
      trace (\<lambda>a b. caq_halves_left b = 0 \<and> \<not> caq_have_byte b) caq_process 44 s =
        replicate 43 False @ [True] \<and>
      bytesRead (after caq_process 44 s) = bytesRead s + 1) \<and>
   (\<not> read_fails (entry u) \<and> length (contents (entry u)) < 2 ^ 32 \<longrightarrow>
      trace period caq_process
          (44 * length (drop (unat (bytesRead u)) (contents (entry u))) + 1) (caq_init u) =
        concat (map (\<lambda>b. caq_wave (caq_frame b))
                  (drop (unat (bytesRead u)) (contents (entry u)))) @ [0])"
proof -
  have a: "trace period caq_process 44 s =
        replicate 4 CAQ_SPACE_HALF_US @
        concat (map (\<lambda>i. replicate 4
                      (if bit (contents (entry s) ! unat (bytesRead s)) i
                       then CAQ_MARK_HALF_US else CAQ_SPACE_HALF_US))
                  [7, 6, 5, 4, 3, 2, 1, 0]) @
        replicate 8 CAQ_MARK_HALF_US \<and>
      trace period caq_process 44 s =
        caq_wave (caq_frame (contents (entry s) ! unat (bytesRead s))) \<and>
      length (caq_frame (contents (entry s) ! unat (bytesRead s))) = 11 \<and>
      trace (\<lambda>a b. caq_halves_left b = 0 \<and> \<not> caq_have_byte b) caq_process 44 s =
        replicate 43 False @ [True] \<and>
      bytesRead (after caq_process 44 s) = bytesRead s + 1"
    if h: "caq_halves_left s = 0" "\<not> caq_have_byte s" "fst (ReadByte s)"
  proof -
    have r: "replicate 4 x = [x, x, x, x]" "replicate 8 x = [x, x, x, x, x, x, x, x]"
      for x :: uint16_t
      by (simp_all add: numeral_eq_Suc)
    have w: "caq_wave (caq_frame b) =
        replicate 4 CAQ_SPACE_HALF_US @
        concat (map (\<lambda>i. replicate 4 (if bit b i then CAQ_MARK_HALF_US else CAQ_SPACE_HALF_US))
                  [7, 6, 5, 4, 3, 2, 1, 0]) @
        replicate 8 CAQ_MARK_HALF_US" for b
      unfolding caq_wave_frame r caq_consts by simp
    show ?thesis
      unfolding caq_byte_periods [OF h] caq_byte_boundary [OF h] caq_byte_after [OF h]
      using w by (simp add: caq_frame_def)
  qed
  have b: "trace period caq_process
          (44 * length (drop (unat (bytesRead u)) (contents (entry u))) + 1) (caq_init u) =
        concat (map (\<lambda>b. caq_wave (caq_frame b))
                  (drop (unat (bytesRead u)) (contents (entry u)))) @ [0]"
    if h: "\<not> read_fails (entry u)" "length (contents (entry u)) < 2 ^ 32"
    using caq_session [OF caq_init_boundary(1,2), of u
        "drop (unat (bytesRead u)) (contents (entry u))"] h
    by (simp add: caq_init_boundary)
  from a b show ?thesis by blast
qed

theorem caq_byte_framing_witness:
  "caq_halves_left (caq_init (caq_power_on (tape [0xA5] 1200))) = 0 \<and>
   fst (ReadByte (caq_init (caq_power_on (tape [0xA5] 1200)))) \<and>
   trace period caq_process 44 (caq_init (caq_power_on (tape [0xA5] 1200))) =
     [544, 544, 544, 544,
      272, 272, 272, 272, 544, 544, 544, 544, 272, 272, 272, 272, 544, 544, 544, 544,
      544, 544, 544, 544, 272, 272, 272, 272, 544, 544, 544, 544, 272, 272, 272, 272,
      272, 272, 272, 272, 272, 272, 272, 272] \<and>
   trace period caq_process 45 (caq_init (caq_power_on (tape [0xA5] 1200))) =
     caq_wave (caq_frame 0xA5) @ [0]"
proof -
  let ?u = "caq_power_on (tape [0xA5] 1200)"
  let ?s = "caq_init ?u"
  have e: "entry ?u = \<lparr>contents = [0xA5], seek_fails = False, read_fails = False\<rparr>"
    "bytesRead ?u = 0"
    by (simp_all add: caq_power_on_def tape_def globals.extend_def)
  have h: "caq_halves_left ?s = 0" "\<not> caq_have_byte ?s" "fst (ReadByte ?s)"
    by (simp_all add: caq_init_boundary read_byte_ok e)
  have g: "\<not> read_fails (entry ?u)" "length (contents (entry ?u)) < 2 ^ 32"
    by (simp_all add: e)
  have c: "contents (entry ?s) ! unat (bytesRead ?s) = 0xA5"
    by (simp add: caq_init_boundary e)
  have w: "caq_wave (caq_frame (0xA5 :: byte)) =
     [544, 544, 544, 544,
      272, 272, 272, 272, 544, 544, 544, 544, 272, 272, 272, 272, 544, 544, 544, 544,
      544, 544, 544, 544, 272, 272, 272, 272, 544, 544, 544, 544, 272, 272, 272, 272,
      272, 272, 272, 272, 272, 272, 272, 272]"
    by (simp add: caq_wave_frame numeral_eq_Suc)
  from caq_byte_framing [of ?s ?u] h g
  have "trace period caq_process 44 ?s =
        caq_wave (caq_frame (contents (entry ?s) ! unat (bytesRead ?s)))"
    and "trace period caq_process
          (44 * length (drop (unat (bytesRead ?u)) (contents (entry ?u))) + 1) ?s =
        concat (map (\<lambda>b. caq_wave (caq_frame b))
                  (drop (unat (bytesRead ?u)) (contents (entry ?u)))) @ [0]"
    by blast+
  then show ?thesis using h(1,3) unfolding c e by (simp add: w)
qed

section \<open>The baud rate override\<close>

lemma caq_calls_ticks: "caq_calls (replicate n Tick) s = after caq_process n s"
  by (induction n arbitrary: s) simp_all

lemma caq_process_baud:
  assumes "if caq_baudrate_overridden t
           then BAUDRATE t = 600 \<and> caq_saved_baudrate t = V else BAUDRATE t = V"
    and "caq_stage t = DONE \<longrightarrow> caq_halves_left t = 0 \<and> \<not> caq_baudrate_overridden t"
  shows "(if caq_baudrate_overridden (caq_process t)
          then BAUDRATE (caq_process t) = 600 \<and> caq_saved_baudrate (caq_process t) = V
          else BAUDRATE (caq_process t) = V) \<and>
         (caq_stage (caq_process t) = DONE \<longrightarrow>
            caq_halves_left (caq_process t) = 0 \<and> \<not> caq_baudrate_overridden (caq_process t))"
proof (cases "caq_halves_left t = 0")
  case False
  with assms show ?thesis by (auto simp: caq_mid)
next
  case True
  with assms show ?thesis
    by (auto simp: caq_process_def caq_emit_half_def caq_get_next_byte_def caq_begin_bit_def
        ReadByte_def Let_def split: CAQ_STAGE.splits)
qed

lemma caq_init_baud:
  assumes "if caq_baudrate_overridden t
           then BAUDRATE t = 600 \<and> caq_saved_baudrate t = V else BAUDRATE t = V"
  shows "(if caq_baudrate_overridden (caq_init t)
          then BAUDRATE (caq_init t) = 600 \<and> caq_saved_baudrate (caq_init t) = V
          else BAUDRATE (caq_init t) = V) \<and>
         (caq_stage (caq_init t) = DONE \<longrightarrow>
            caq_halves_left (caq_init t) = 0 \<and> \<not> caq_baudrate_overridden (caq_init t))"
  using assms by (auto simp: caq_init_def Let_def)

lemma caq_calls_baud:
  assumes "if caq_baudrate_overridden t
           then BAUDRATE t = 600 \<and> caq_saved_baudrate t = V else BAUDRATE t = V"
    and "caq_stage t = DONE \<longrightarrow> caq_halves_left t = 0 \<and> \<not> caq_baudrate_overridden t"
  shows "(if caq_baudrate_overridden (caq_calls cs t)
          then BAUDRATE (caq_calls cs t) = 600 \<and> caq_saved_baudrate (caq_calls cs t) = V
          else BAUDRATE (caq_calls cs t) = V) \<and>
         (caq_stage (caq_calls cs t) = DONE \<longrightarrow>
            caq_halves_left (caq_calls cs t) = 0 \<and> \<not> caq_baudrate_overridden (caq_calls cs t))"
  using assms
proof (induction cs t rule: caq_calls.induct)
  case (1 s)
  then show ?case by simp
next
  case (2 cs s)
  from caq_init_baud [OF "2.prems"(1)] "2.IH" show ?case by simp
next
  case (3 cs s)
  from caq_process_baud [OF "3.prems"] "3.IH" show ?case by simp
qed

text \<open>
  C5. Started with the override flag clear and the global rate at \<open>V\<close>, \<open>caq_init\<close> sets
  \<open>BAUDRATE\<close> to 600, saves \<open>V\<close> and sets the flag. Through any later calls of
  \<open>caq_init\<close> and \<open>caq_process\<close> the rate is 600 with \<open>V\<close> saved while the flag is set,
  and \<open>V\<close> once it is clear; whenever the encoder is in DONE the rate is \<open>V\<close>. A further
  \<open>caq_init\<close> with the flag set changes neither the saved value nor the rate. The tick
  that finds the image exhausted between bytes goes to DONE and writes the saved value
  back.
\<close>

theorem caq_baud_round_trip:
  "(\<not> caq_baudrate_overridden s \<longrightarrow>
      BAUDRATE (caq_init s) = 600 \<and>
      caq_saved_baudrate (caq_init s) = BAUDRATE s \<and>
      caq_baudrate_overridden (caq_init s) \<and>
      (if caq_baudrate_overridden (caq_calls cs (caq_init s))
       then BAUDRATE (caq_calls cs (caq_init s)) = 600 \<and>
            caq_saved_baudrate (caq_calls cs (caq_init s)) = BAUDRATE s
       else BAUDRATE (caq_calls cs (caq_init s)) = BAUDRATE s) \<and>
      (caq_stage (caq_calls cs (caq_init s)) = DONE \<longrightarrow>
         BAUDRATE (caq_calls cs (caq_init s)) = BAUDRATE s)) \<and>
   (caq_baudrate_overridden u \<longrightarrow>
      caq_saved_baudrate (caq_init u) = caq_saved_baudrate u \<and>
      BAUDRATE (caq_init u) = BAUDRATE u \<and>
      caq_baudrate_overridden (caq_init u)) \<and>
   (caq_baudrate_overridden u \<and> caq_halves_left u = 0 \<and> \<not> caq_have_byte u \<and>
    \<not> fst (ReadByte u) \<longrightarrow>
      caq_stage (caq_process u) = DONE \<and>
      BAUDRATE (caq_process u) = caq_saved_baudrate u \<and>
      \<not> caq_baudrate_overridden (caq_process u))"
proof -
  have a: "BAUDRATE (caq_init s) = 600 \<and>
      caq_saved_baudrate (caq_init s) = BAUDRATE s \<and>
      caq_baudrate_overridden (caq_init s) \<and>
      (if caq_baudrate_overridden (caq_calls cs (caq_init s))
       then BAUDRATE (caq_calls cs (caq_init s)) = 600 \<and>
            caq_saved_baudrate (caq_calls cs (caq_init s)) = BAUDRATE s
       else BAUDRATE (caq_calls cs (caq_init s)) = BAUDRATE s) \<and>
      (caq_stage (caq_calls cs (caq_init s)) = DONE \<longrightarrow>
         BAUDRATE (caq_calls cs (caq_init s)) = BAUDRATE s)"
    if h: "\<not> caq_baudrate_overridden s"
  proof -
    have i: "BAUDRATE (caq_init s) = 600" "caq_saved_baudrate (caq_init s) = BAUDRATE s"
      "caq_baudrate_overridden (caq_init s)" "caq_stage (caq_init s) = START_BIT"
      using h by (simp_all add: caq_init_def Let_def)
    have "(if caq_baudrate_overridden (caq_calls cs (caq_init s))
          then BAUDRATE (caq_calls cs (caq_init s)) = 600 \<and>
               caq_saved_baudrate (caq_calls cs (caq_init s)) = BAUDRATE s
          else BAUDRATE (caq_calls cs (caq_init s)) = BAUDRATE s) \<and>
         (caq_stage (caq_calls cs (caq_init s)) = DONE \<longrightarrow>
            caq_halves_left (caq_calls cs (caq_init s)) = 0 \<and>
            \<not> caq_baudrate_overridden (caq_calls cs (caq_init s)))"
      by (rule caq_calls_baud) (simp_all add: i)
    then show ?thesis using i(1,2,3) by (auto split: if_splits)
  qed
  have b: "caq_saved_baudrate (caq_init u) = caq_saved_baudrate u \<and>
      BAUDRATE (caq_init u) = BAUDRATE u \<and> caq_baudrate_overridden (caq_init u)"
    if "caq_baudrate_overridden u"
    using that by (simp add: caq_init_def Let_def)
  have c: "caq_stage (caq_process u) = DONE \<and>
      BAUDRATE (caq_process u) = caq_saved_baudrate u \<and>
      \<not> caq_baudrate_overridden (caq_process u)"
    if "caq_baudrate_overridden u" "caq_halves_left u = 0" "\<not> caq_have_byte u"
      "\<not> fst (ReadByte u)"
    using that caq_finish [OF that(2,3,4)] by simp
  from a b c show ?thesis by blast
qed

theorem caq_baud_round_trip_witness:
  "\<not> caq_baudrate_overridden (caq_power_on (tape [0xA5] 1200)) \<and>
   BAUDRATE (caq_power_on (tape [0xA5] 1200)) = 1200 \<and>
   BAUDRATE (caq_init (caq_power_on (tape [0xA5] 1200))) = 600 \<and>
   caq_saved_baudrate (caq_init (caq_power_on (tape [0xA5] 1200))) = 1200 \<and>
   caq_baudrate_overridden (caq_init (caq_init (caq_power_on (tape [0xA5] 1200)))) \<and>
   caq_saved_baudrate (caq_init (caq_init (caq_power_on (tape [0xA5] 1200)))) = 1200 \<and>
   caq_stage (caq_calls (Init # replicate 45 Tick) (caq_init (caq_power_on (tape [0xA5] 1200))))
     = DONE \<and>
   BAUDRATE (caq_calls (Init # replicate 45 Tick) (caq_init (caq_power_on (tape [0xA5] 1200))))
     = 1200"
proof -
  let ?p = "caq_power_on (tape [0xA5] 1200)"
  have p: "\<not> caq_baudrate_overridden ?p" "BAUDRATE ?p = 1200"
    "entry ?p = \<lparr>contents = [0xA5], seek_fails = False, read_fails = False\<rparr>"
    "bytesRead ?p = 0"
    by (simp_all add: caq_power_on_def tape_def globals.extend_def)
  note t = caq_baud_round_trip
    [where s = ?p and cs = "Init # replicate 45 Tick" and u = "caq_init ?p"]
  from t p(1,2) have i: "BAUDRATE (caq_init ?p) = 600" "caq_saved_baudrate (caq_init ?p) = 1200"
    "caq_baudrate_overridden (caq_init ?p)"
    by auto
  from t i(2,3) have r: "caq_baudrate_overridden (caq_init (caq_init ?p))"
    "caq_saved_baudrate (caq_init (caq_init ?p)) = 1200"
    by auto
  let ?q = "caq_init (caq_init ?p)"
  have "caq_stage (after caq_process (44 * length [0xA5 :: byte] + 1) ?q) = DONE"
    using caq_session [OF caq_init_boundary(1,2), of "caq_init ?p" "[0xA5]"]
    by (simp add: caq_init_boundary p)
  then have d: "caq_stage (caq_calls (Init # replicate 45 Tick) (caq_init ?p)) = DONE"
    by (simp add: caq_calls_ticks)
  with t p(1,2)
  have "BAUDRATE (caq_calls (Init # replicate 45 Tick) (caq_init ?p)) = 1200"
    by auto
  with p(1,2) i r d show ?thesis by simp
qed

section \<open>The periods handed to the caller\<close>

lemma caq_have_start:
  assumes "caq_halves_left s = 0" "caq_have_byte s" "caq_stage s = START_BIT"
  shows "caq_process s =
     s\<lparr>currentPeriod := 544, caq_stage := DATA_BITS, caq_halves_left := 3,
       caq_half_period := 544\<rparr>"
  using assms
  by (simp add: caq_process_def caq_emit_half_def caq_begin_bit_def caq_consts Let_def)

lemma caq_have_done:
  assumes "caq_halves_left s = 0" "caq_have_byte s" "caq_stage s = DONE"
  shows "caq_process s =
     s\<lparr>currentPeriod := 0, currentID := IDEOF, currentTask := PROCESSID, count_r := 255,
       BAUDRATE := (if caq_baudrate_overridden s then caq_saved_baudrate s else BAUDRATE s),
       caq_baudrate_overridden := False\<rparr>"
  using assms by (simp add: caq_process_def Let_def)

lemma caq_tick_periods:
  assumes "caq_half_period t = 272 \<or> caq_half_period t = 544"
  shows "(caq_half_period (caq_process t) = 272 \<or> caq_half_period (caq_process t) = 544) \<and>
         currentPeriod (caq_process t) \<in> {0, 272, 544}"
proof (cases "caq_halves_left t = 0")
  case False
  with assms show ?thesis by (auto simp: caq_mid)
next
  case z: True
  show ?thesis
  proof (cases "caq_have_byte t")
    case True
    show ?thesis
    proof (cases "caq_stage t")
      case START_BIT
      from caq_have_start [OF z True this] show ?thesis by simp
    next
      case DATA_BITS
      from caq_data [OF z True this] show ?thesis by simp
    next
      case STOP_BIT1
      from caq_stop1 [OF z True this] show ?thesis by simp
    next
      case STOP_BIT2
      from caq_stop2 [OF z True this] show ?thesis by simp
    next
      case DONE
      from caq_have_done [OF z True this] assms show ?thesis by auto
    qed
  next
    case False
    show ?thesis
    proof (cases "fst (ReadByte t)")
      case True
      from caq_start [OF z False this] show ?thesis by simp
    next
      case no: False
      from caq_finish [OF z False this] assms show ?thesis by auto
    qed
  qed
qed

lemma caq_half_period_ok:
  "caq_half_period (caq_calls cs (caq_init s)) = 272 \<or>
   caq_half_period (caq_calls cs (caq_init s)) = 544"
proof -
  have i: "caq_half_period (caq_init t) = 272 \<or> caq_half_period (caq_init t) = 544" for t
    by (simp add: caq_init_def caq_consts Let_def)
  have "caq_half_period (caq_calls cs t) = 272 \<or> caq_half_period (caq_calls cs t) = 544"
    if "caq_half_period t = 272 \<or> caq_half_period t = 544" for t
    using that
  proof (induction cs t rule: caq_calls.induct)
    case (1 s)
    then show ?case by simp
  next
    case (2 cs s)
    from "2.IH" [OF i] show ?case by simp
  next
    case (3 cs s)
    from caq_tick_periods [OF "3.prems"]
    have "caq_half_period (caq_process s) = 272 \<or> caq_half_period (caq_process s) = 544"
      by blast
    from "3.IH" [OF this] show ?case by simp
  qed
  from this [OF i] show ?thesis .
qed

lemma caq_process_period:
  assumes "caq_half_period t = 272 \<or> caq_half_period t = 544"
  shows "currentPeriod (caq_process t) \<in> {0, 272, 544}"
  using caq_tick_periods [OF assms] by blast

text \<open>
  C7. Every tick of the MZF encoder, from any state, hands out 0 or one of 464, 494,
  240, 264, the four MZF timing constants. Every tick of the CAQ encoder, in any state
  reached from \<open>caq_init\<close> by calls of \<open>caq_init\<close> and \<open>caq_process\<close>, hands out 0 or
  one of 272, 544, the two CAQ timing constants.
\<close>

theorem periods_are_protocol_constants:
  "currentPeriod (mzf_process s) \<in> {0, 464, 494, 240, 264} \<and>
   {MZF_LONG_UP_US, MZF_LONG_DOWN_US, MZF_SHORT_UP_US, MZF_SHORT_DOWN_US} =
     {464, 494, 240, 264} \<and>
   currentPeriod (caq_process (caq_calls cs (caq_init t))) \<in> {0, 272, 544} \<and>
   {CAQ_MARK_HALF_US, CAQ_SPACE_HALF_US} = {272, 544}"
  using mzf_process_period [of s] caq_process_period [OF caq_half_period_ok, of cs t]
  by (simp add: mzf_consts caq_consts)

theorem periods_are_protocol_constants_witness:
  "currentPeriod (mzf_process (mzf_init (mzf_power_on (tape demo_image 0)))) \<in>
     {0, 464, 494, 240, 264} \<and>
   currentPeriod (caq_process (caq_calls [Tick, Tick, Init, Tick]
      (caq_init (caq_power_on (tape [0xA5] 1200))))) \<in> {0, 272, 544}"
  using periods_are_protocol_constants
    [of "mzf_init (mzf_power_on (tape demo_image 0))" "[Tick, Tick, Init, Tick]"
        "caq_power_on (tape [0xA5] 1200)"]
  by blast

end
